theory Spec2Isabelle
  imports Complex_Main "HOL-Library.Char_ord" "HOL-Library.List_Lexorder"
begin

section \<open>Data model\<close>

text \<open>
  A pandas cell is a float, a string or the missing marker. Floats are modelled as
  reals: no claim below depends on rounding. A data frame has named columns and a list
  of rows; a row gives the cell of every column, so columns are aligned by row index
  by construction. Column names are taken to be unique, as a record of cells has it.
\<close>

datatype cell = Num real | Str string | NaN

datatype error = KeyError | IndexError | TypeError | ValueError

type_synonym row = "string \<Rightarrow> cell"

record dataframe =
  columns :: "string list"
  rows :: "row list"

text \<open>An exception ends the computation: the rest of the body runs on a result only.\<close>

definition and_then :: "error + 'a \<Rightarrow> ('a \<Rightarrow> error + 'b) \<Rightarrow> error + 'b" where
  "and_then m f = (case m of Inl e \<Rightarrow> Inl e | Inr v \<Rightarrow> f v)"

text \<open>\<^verbatim>\<open>x[col]\<close> raises KeyError for a column that the frame does not have.\<close>

definition getcol :: "dataframe \<Rightarrow> string \<Rightarrow> error + cell list" where
  "getcol x c = (if c \<in> set (columns x) then Inr (map (\<lambda>r. r c) (rows x)) else Inl KeyError)"

text \<open>Elementwise \<^verbatim>\<open>==\<close>: a missing cell equals nothing, not even itself.\<close>

definition cell_eq :: "cell \<Rightarrow> cell \<Rightarrow> bool" where
  "cell_eq a b = (a \<noteq> NaN \<and> a = b)"

definition fillna0 :: "cell \<Rightarrow> cell" where
  "fillna0 c = (if c = NaN then Num 0 else c)"

fun is_Str :: "cell \<Rightarrow> bool" where
  "is_Str (Str s) = True"
| "is_Str c = False"

fun nums :: "cell list \<Rightarrow> real list" where
  "nums [] = []"
| "nums (Num r # cs) = r # nums cs"
| "nums (c # cs) = nums cs"

section \<open>Statistics\<close>

text \<open>The median of a sorted sample: the middle value, or the mean of the two middle ones.\<close>

definition median :: "real list \<Rightarrow> real" where
  "median xs = (let s = sort xs; n = length s in
     if odd n then s ! (n div 2) else (s ! (n div 2 - 1) + s ! (n div 2)) / 2)"

text \<open>
  \<^verbatim>\<open>groupby(...).median()\<close> and \<^verbatim>\<open>np.median\<close> on a column: strings raise TypeError, an
  empty sample gives the missing marker.
\<close>

definition median_agg :: "cell list \<Rightarrow> error + cell" where
  "median_agg vs = (if list_ex is_Str vs then Inl TypeError
     else if nums vs = [] \<or> NaN \<in> set vs then Inr NaN
     else Inr (Num (median (nums vs))))"

definition np_mean :: "cell list \<Rightarrow> error + cell" where
  "np_mean vs = (if list_ex is_Str vs then Inl TypeError
     else if nums vs = [] \<or> NaN \<in> set vs then Inr NaN
     else Inr (Num (sum_list (nums vs) / real (length (nums vs)))))"

text \<open>
  \<^verbatim>\<open>collections.Counter\<close>: a dict from value to count, which keeps the order in which
  the values were first inserted.
\<close>

fun counter_add :: "'a \<Rightarrow> ('a \<times> nat) list \<Rightarrow> ('a \<times> nat) list" where
  "counter_add v [] = [(v, 1)]"
| "counter_add v (c # cs) = (if fst c = v then (fst c, Suc (snd c)) # cs else c # counter_add v cs)"

definition Counter :: "'a list \<Rightarrow> ('a \<times> nat) list" where
  "Counter vs = foldl (\<lambda>c v. counter_add v c) [] vs"

text \<open>
  \<^verbatim>\<open>most_common()\<close> is \<^verbatim>\<open>sorted(items, key=count, reverse=True)\<close>: a stable sort by
  falling count. \<^verbatim>\<open>most_common(1)\<close> is \<^verbatim>\<open>heapq.nlargest(1, ...)\<close>, which is
  \<^verbatim>\<open>max(items, key=count)\<close>: the first item of the largest count.
\<close>

definition most_common :: "('a \<times> nat) list \<Rightarrow> ('a \<times> nat) list" where
  "most_common c = sort_key (\<lambda>p. - int (snd p)) c"

fun max_by_count :: "('a \<times> nat) \<Rightarrow> ('a \<times> nat) list \<Rightarrow> ('a \<times> nat)" where
  "max_by_count best [] = best"
| "max_by_count best (c # cs) = max_by_count (if snd best < snd c then c else best) cs"

definition most_common_1 :: "('a \<times> nat) list \<Rightarrow> ('a \<times> nat) list" where
  "most_common_1 c = (case c of [] \<Rightarrow> [] | c0 # cs \<Rightarrow> [max_by_count c0 cs])"

text \<open>\<^verbatim>\<open>Counter(k).most_common()[0][0]\<close>, the aggregation of the categorical imputers.\<close>

definition mode_agg :: "cell list \<Rightarrow> error + cell" where
  "mode_agg vs = (case most_common (Counter vs) of [] \<Rightarrow> Inl IndexError | p # ps \<Rightarrow> Inr (fst p))"

section \<open>Grouping a source column\<close>

text \<open>The order of group keys (\<^verbatim>\<open>groupby\<close> sorts them): numbers, then strings.\<close>

fun cell_le :: "cell \<Rightarrow> cell \<Rightarrow> bool" where
  "cell_le (Num a) (Num b) = (a \<le> b)"
| "cell_le (Num a) c = True"
| "cell_le (Str a) (Str b) = (a \<le> b)"
| "cell_le (Str a) (Num b) = False"
| "cell_le (Str a) NaN = True"
| "cell_le NaN NaN = True"
| "cell_le NaN c = False"

fun insort_cell :: "cell \<Rightarrow> cell list \<Rightarrow> cell list" where
  "insort_cell k [] = [k]"
| "insort_cell k (c # cs) = (if cell_le k c then k # c # cs else c # insort_cell k cs)"

definition sort_cells :: "cell list \<Rightarrow> cell list" where
  "sort_cells ks = foldr insort_cell ks []"

text \<open>\<^verbatim>\<open>dropna()\<close> on the two-column frame: a row with a missing key or value goes.\<close>

definition dropna2 :: "(cell \<times> cell) list \<Rightarrow> (cell \<times> cell) list" where
  "dropna2 df = filter (\<lambda>p. fst p \<noteq> NaN \<and> snd p \<noteq> NaN) df"

definition group_values :: "(cell \<times> cell) list \<Rightarrow> cell \<Rightarrow> cell list" where
  "group_values df k = map snd (filter (\<lambda>p. fst p = k) df)"

fun agg_groups :: "(cell list \<Rightarrow> error + cell) \<Rightarrow> (cell \<times> cell) list \<Rightarrow> cell list
    \<Rightarrow> error + cell list list" where
  "agg_groups agg df [] = Inr []"
| "agg_groups agg df (k # ks) =
     and_then (agg (group_values df k)) (\<lambda>m.
     and_then (agg_groups agg df ks) (\<lambda>rest. Inr ([k, m] # rest)))"

text \<open>
  \<^verbatim>\<open>df.groupby(src_col, as_index=False).agg(...)\<close> followed by
  \<^verbatim>\<open>to_dict(orient="split")['data']\<close>: one list \<^verbatim>\<open>[key, statistic]\<close> per group.
\<close>

definition groupby_agg :: "(cell list \<Rightarrow> error + cell) \<Rightarrow> (cell \<times> cell) list
    \<Rightarrow> error + cell list list" where
  "groupby_agg agg df = agg_groups agg df (sort_cells (remdups (map fst df)))"

text \<open>
  The table of one pair. \<^verbatim>\<open>pd.DataFrame({src_col: ..., dest_col: ...})\<close> has one column
  only when both names are the same (the later entry of the dict literal wins): the
  groups are then the values themselves, no value column is left to aggregate, and
  the lists have no statistic. \<^verbatim>\<open>median()\<close> returns the keys alone; the lambda of the
  categorical classes is called once per group on a frame without columns, where
  \<^verbatim>\<open>Counter(k).most_common()[0]\<close> raises IndexError.
\<close>

definition pair_table :: "(cell list \<Rightarrow> error + cell) \<Rightarrow> string \<Rightarrow> string \<Rightarrow> cell list
    \<Rightarrow> cell list \<Rightarrow> error + cell list list" where
  "pair_table agg s t ks vs =
     (if s = t then
        (let groups = sort_cells (remdups (filter (\<lambda>v. v \<noteq> NaN) vs)) in
         case agg [] of
           Inl e \<Rightarrow> (if groups = [] then Inr [] else Inl e)
         | Inr m \<Rightarrow> Inr (map (\<lambda>k. [k]) groups))
      else groupby_agg agg (dropna2 (zip ks vs)))"

section \<open>The four group-statistic imputers\<close>

text \<open>
  The loop of \<^verbatim>\<open>fit\<close>, the same in the four classes: \<^verbatim>\<open>bx\<close> is the frame the source
  column is read from (the binned frame, or \<^verbatim>\<open>x\<close> itself), \<^verbatim>\<open>agg\<close> the statistic. The
  table of a pair is stored under the key \<^verbatim>\<open>src_col+"_"+dest_col\<close>.
\<close>

definition lookup_key :: "string \<times> string \<Rightarrow> string" where
  "lookup_key p = fst p @ ''_'' @ snd p"

definition fit_pair :: "(cell list \<Rightarrow> error + cell) \<Rightarrow> dataframe \<Rightarrow> dataframe
    \<Rightarrow> string \<times> string \<Rightarrow> error + cell list list" where
  "fit_pair agg bx x p =
     and_then (getcol bx (fst p)) (\<lambda>ks.
     and_then (getcol x (snd p)) (\<lambda>vs.
     pair_table agg (fst p) (snd p) ks vs))"

fun fit_pairs :: "(cell list \<Rightarrow> error + cell) \<Rightarrow> dataframe \<Rightarrow> dataframe
    \<Rightarrow> (string \<times> string) list \<Rightarrow> (string \<rightharpoonup> cell list list)
    \<Rightarrow> error + (string \<rightharpoonup> cell list list)" where
  "fit_pairs agg bx x [] d = Inr d"
| "fit_pairs agg bx x (p # ps) d =
     and_then (fit_pair agg bx x p) (\<lambda>tbl. fit_pairs agg bx x ps (d(lookup_key p \<mapsto> tbl)))"

text \<open>
  \<^verbatim>\<open>x.loc[(src == src_val) & (x[dest_col].isna()), dest_col] = dest_val\<close>, on one row and
  on the frame; \<^verbatim>\<open>ks\<close> is the source column the mask reads.
\<close>

definition fill_row :: "cell \<Rightarrow> cell \<Rightarrow> string \<Rightarrow> cell \<Rightarrow> row \<Rightarrow> row" where
  "fill_row k src_val t dest_val r =
     (if cell_eq k src_val \<and> r t = NaN then r(t := dest_val) else r)"

definition assign :: "cell list \<Rightarrow> cell \<Rightarrow> string \<Rightarrow> cell \<Rightarrow> dataframe \<Rightarrow> dataframe" where
  "assign ks src_val t dest_val x =
     x\<lparr>rows := map2 (\<lambda>k r. fill_row k src_val t dest_val r) ks (rows x)\<rparr>"

text \<open>
  The inner loop \<^verbatim>\<open>for cat in self.impute_value_dict[...]\<close>. \<^verbatim>\<open>kf\<close> is the binned frame
  of the numeric-source classes; the categorical-source classes read the source column
  from the current \<^verbatim>\<open>x\<close> (\<^verbatim>\<open>None\<close>).
\<close>

fun apply_table :: "dataframe option \<Rightarrow> string \<Rightarrow> string \<Rightarrow> cell list list \<Rightarrow> dataframe
    \<Rightarrow> error + dataframe" where
  "apply_table kf s t [] x = Inr x"
| "apply_table kf s t (cat # cats) x =
     (case cat of
        src_val # dest_val # rest \<Rightarrow>
          and_then (getcol (case kf of None \<Rightarrow> x | Some bx \<Rightarrow> bx) s) (\<lambda>ks.
          and_then (getcol x t) (\<lambda>vs.
          apply_table kf s t cats (assign ks src_val t dest_val x)))
      | _ \<Rightarrow> Inl IndexError)"

fun impute_pairs :: "dataframe option \<Rightarrow> (string \<rightharpoonup> cell list list) \<Rightarrow> (string \<times> string) list
    \<Rightarrow> dataframe \<Rightarrow> error + dataframe" where
  "impute_pairs kf d [] x = Inr x"
| "impute_pairs kf d (p # ps) x =
     (case d (lookup_key p) of
        None \<Rightarrow> Inl KeyError
      | Some tbl \<Rightarrow> and_then (apply_table kf (fst p) (snd p) tbl x) (impute_pairs kf d ps))"

record pair_imputer =
  column_pairs :: "(string \<times> string) list"
  src_cols :: "string list option"
  dest_cols :: "string list option"
  impute_value_dict :: "string \<rightharpoonup> cell list list"

definition pair_imputer_init :: "(string \<times> string) list \<Rightarrow> pair_imputer" where
  "pair_imputer_init ps =
     \<lparr>column_pairs = ps, src_cols = None, dest_cols = None, impute_value_dict = Map.empty\<rparr>"

definition CatAndNumImputer_fit :: "pair_imputer \<Rightarrow> dataframe \<Rightarrow> error + pair_imputer" where
  "CatAndNumImputer_fit self x =
     and_then (fit_pairs median_agg x x (column_pairs self) (impute_value_dict self)) (\<lambda>d.
     Inr (self\<lparr>src_cols := Some (map fst (column_pairs self)),
               dest_cols := Some (map snd (column_pairs self)),
               impute_value_dict := d\<rparr>))"

definition CatAndCatImputer_fit :: "pair_imputer \<Rightarrow> dataframe \<Rightarrow> error + pair_imputer" where
  "CatAndCatImputer_fit self x =
     and_then (fit_pairs mode_agg x x (column_pairs self) (impute_value_dict self)) (\<lambda>d.
     Inr (self\<lparr>src_cols := Some (map fst (column_pairs self)),
               dest_cols := Some (map snd (column_pairs self)),
               impute_value_dict := d\<rparr>))"

text \<open>
  \<^verbatim>\<open>transform\<close> of the two categorical-source classes. Before any \<^verbatim>\<open>fit\<close> the column
  lists are \<^verbatim>\<open>None\<close> and \<^verbatim>\<open>zip\<close> raises TypeError.
\<close>

definition cat_transform :: "pair_imputer \<Rightarrow> dataframe \<Rightarrow> error + dataframe" where
  "cat_transform self x =
     (case src_cols self of None \<Rightarrow> Inl TypeError | Some ss \<Rightarrow>
      case dest_cols self of None \<Rightarrow> Inl TypeError | Some ds \<Rightarrow>
        impute_pairs None (impute_value_dict self) (zip ss ds) x)"

definition CatAndNumImputer_transform :: "pair_imputer \<Rightarrow> dataframe \<Rightarrow> error + dataframe" where
  "CatAndNumImputer_transform self x = cat_transform self x"

definition CatAndCatImputer_transform :: "pair_imputer \<Rightarrow> dataframe \<Rightarrow> error + dataframe" where
  "CatAndCatImputer_transform self x = cat_transform self x"

section \<open>Binning a numeric source column\<close>

text \<open>
  Modelled from the spec: \<^verbatim>\<open>KBinsDiscretizer\<close> is imported from scikit-learn and is not
  part of the sources. The model follows section 4.1 of the specification and the
  library's documented behaviour with \<^verbatim>\<open>encode='ordinal'\<close>: per column, \<^verbatim>\<open>n_bins\<close>
  equal-width intervals over [min, max] (uniform) or intervals between the sample
  quantiles (quantile, where edges closer than 1e-8 to their predecessor are
  removed); a column whose minimum equals its maximum has the single bin 0; a value
  is mapped to the number of interior edges that are at most the value. Fitting
  raises ValueError for fewer than two bins, for no column, for no row and for a
  value that is not a number.
\<close>

datatype binning = Uniform | Quantile

datatype edges = Constant | Edges "real list"

text \<open>Linear interpolation between the order statistics, at the fraction \<^verbatim>\<open>p\<close>.\<close>

definition interp :: "real list \<Rightarrow> real \<Rightarrow> real" where
  "interp s p = (let n = length s; h = p * real (n - 1); i = nat \<lfloor>h\<rfloor>;
       lo = s ! i; hi = s ! (min (i + 1) (n - 1))
     in lo + (h - real i) * (hi - lo))"

fun drop_close :: "real \<Rightarrow> real list \<Rightarrow> real list" where
  "drop_close prev [] = []"
| "drop_close prev (e # es) =
     (if 1 / 10 ^ 8 < e - prev then e # drop_close e es else drop_close e es)"

definition kbins_fit_col :: "nat \<Rightarrow> binning \<Rightarrow> real list \<Rightarrow> edges" where
  "kbins_fit_col n strat col = (let s = sort col; lo = hd s; hi = last s in
     if lo = hi then Constant
     else (case strat of
        Uniform \<Rightarrow> Edges (map (\<lambda>i. lo + real i * (hi - lo) / real n) [0..<n + 1])
      | Quantile \<Rightarrow> Edges (lo # drop_close lo (map (\<lambda>i. interp s (real i / real n)) [1..<n + 1]))))"

definition is_Num :: "cell \<Rightarrow> bool" where
  "is_Num c = (case c of Num r \<Rightarrow> True | _ \<Rightarrow> False)"

definition kbins_fit :: "nat \<Rightarrow> binning \<Rightarrow> cell list list \<Rightarrow> error + edges list" where
  "kbins_fit n strat X =
     (if n < 2 \<or> X = [] \<or> list_ex (\<lambda>col. col = [] \<or> list_ex (\<lambda>c. \<not> is_Num c) col) X
      then Inl ValueError
      else Inr (map (\<lambda>col. kbins_fit_col n strat (nums col)) X))"

definition bin_of :: "edges \<Rightarrow> real \<Rightarrow> nat" where
  "bin_of e v = (case e of Constant \<Rightarrow> 0
     | Edges es \<Rightarrow> length (filter (\<lambda>b. b \<le> v) (butlast (tl es))))"

definition bin_cell :: "edges \<Rightarrow> cell \<Rightarrow> cell" where
  "bin_cell e c = (case c of Num v \<Rightarrow> Num (real (bin_of e v)) | _ \<Rightarrow> NaN)"

text \<open>
  \<^verbatim>\<open>x[self.src_cols].fillna(0)\<close>, as the list of its columns: KeyError for a source
  column that \<^verbatim>\<open>x\<close> lacks, and every missing source value replaced by zero.
\<close>

definition src_frame :: "dataframe \<Rightarrow> string list \<Rightarrow> error + cell list list" where
  "src_frame x srcs =
     (if set srcs \<subseteq> set (columns x)
      then Inr (map (\<lambda>c. map (\<lambda>r. fillna0 (r c)) (rows x)) srcs)
      else Inl KeyError)"

text \<open>
  \<^verbatim>\<open>pd.DataFrame(kbins.transform(x[self.src_cols].fillna(0)), columns=self.src_cols)\<close>:
  the frame of bin numbers, row by row. A name that occurs twice among the source
  columns has equal columns, and \<^verbatim>\<open>.iloc[:, 0]\<close> reads the first. The discretizer raises
  ValueError for a value that is not a number.
\<close>

definition bin_row :: "string list \<Rightarrow> edges list \<Rightarrow> row \<Rightarrow> row" where
  "bin_row srcs kb r = (\<lambda>c. case map_of (zip srcs kb) c of
       Some e \<Rightarrow> bin_cell e (fillna0 (r c))
     | None \<Rightarrow> NaN)"

definition binned_frame :: "string list \<Rightarrow> edges list \<Rightarrow> dataframe \<Rightarrow> error + dataframe" where
  "binned_frame srcs kb x =
     and_then (src_frame x srcs) (\<lambda>X.
     if list_ex (list_ex (\<lambda>c. \<not> is_Num c)) X then Inl ValueError
     else Inr \<lparr>columns = srcs, rows = map (bin_row srcs kb) (rows x)\<rparr>)"

record num_imputer = pair_imputer +
  n_bins :: nat
  binning_strategy :: binning
  kbins_discretizor :: "edges list option"

definition num_imputer_init :: "(string \<times> string) list \<Rightarrow> nat \<Rightarrow> binning \<Rightarrow> num_imputer" where
  "num_imputer_init ps n strat =
     \<lparr>column_pairs = ps, src_cols = None, dest_cols = None, impute_value_dict = Map.empty,
      n_bins = n, binning_strategy = strat, kbins_discretizor = None\<rparr>"

text \<open>
  \<^verbatim>\<open>fit\<close> of the two numeric-source classes, up to the statistic: the discretizer is
  fitted on the zero-filled source columns, which are then binned, and the loop
  groups the destination column by the bins.
\<close>

definition num_fit :: "(cell list \<Rightarrow> error + cell) \<Rightarrow> num_imputer \<Rightarrow> dataframe
    \<Rightarrow> error + num_imputer" where
  "num_fit agg self x = (let srcs = map fst (column_pairs self) in
     and_then (src_frame x srcs) (\<lambda>X.
     and_then (kbins_fit (n_bins self) (binning_strategy self) X) (\<lambda>kb.
     and_then (binned_frame srcs kb x) (\<lambda>binned_x.
     and_then (fit_pairs agg binned_x x (column_pairs self) (impute_value_dict self)) (\<lambda>d.
     Inr (self\<lparr>src_cols := Some srcs,
               dest_cols := Some (map snd (column_pairs self)),
               impute_value_dict := d,
               kbins_discretizor := Some kb\<rparr>))))))"

definition NumAndNumImputer_fit :: "num_imputer \<Rightarrow> dataframe \<Rightarrow> error + num_imputer" where
  "NumAndNumImputer_fit self x = num_fit median_agg self x"

definition NumAndCatImputer_fit :: "num_imputer \<Rightarrow> dataframe \<Rightarrow> error + num_imputer" where
  "NumAndCatImputer_fit self x = num_fit mode_agg self x"

text \<open>
  \<^verbatim>\<open>transform\<close> of the two numeric-source classes: the bins are computed once, from
  the frame as it is passed in, with the discretizer fitted before. Before any \<^verbatim>\<open>fit\<close>,
  \<^verbatim>\<open>x[None]\<close> raises KeyError.
\<close>

definition num_transform :: "num_imputer \<Rightarrow> dataframe \<Rightarrow> error + dataframe" where
  "num_transform self x =
     (case src_cols self of None \<Rightarrow> Inl KeyError | Some ss \<Rightarrow>
      case kbins_discretizor self of None \<Rightarrow> Inl ValueError | Some kb \<Rightarrow>
      case dest_cols self of None \<Rightarrow> Inl TypeError | Some ds \<Rightarrow>
        and_then (binned_frame ss kb x) (\<lambda>binned_x.
        impute_pairs (Some binned_x) (impute_value_dict self) (zip ss ds) x))"

definition NumAndNumImputer_transform :: "num_imputer \<Rightarrow> dataframe \<Rightarrow> error + dataframe" where
  "NumAndNumImputer_transform self x = num_transform self x"

definition NumAndCatImputer_transform :: "num_imputer \<Rightarrow> dataframe \<Rightarrow> error + dataframe" where
  "NumAndCatImputer_transform self x = num_transform self x"

section \<open>The scalar-strategy imputer\<close>

text \<open>A Python dict as a list of items in insertion order; assignment keeps the place of a key.\<close>

fun dict_set :: "'k \<Rightarrow> 'v \<Rightarrow> ('k \<times> 'v) list \<Rightarrow> ('k \<times> 'v) list" where
  "dict_set k v [] = [(k, v)]"
| "dict_set k v (p # ps) = (if fst p = k then (k, v) # ps else p # dict_set k v ps)"

record missing_imputer =
  strategies :: "(string \<times> cell) list"
  impute_values :: "(string \<times> cell) list"

definition MissingImputer_init :: "(string \<times> cell) list \<Rightarrow> missing_imputer" where
  "MissingImputer_init sts = \<lparr>strategies = sts, impute_values = []\<rparr>"

text \<open>The body of the loop of \<^verbatim>\<open>MissingImputer.fit\<close> for one column.\<close>

definition impute_value :: "dataframe \<Rightarrow> string \<Rightarrow> cell \<Rightarrow> error + cell" where
  "impute_value x col strategy =
     and_then (getcol x col) (\<lambda>c. let col_data = filter (\<lambda>v. v \<noteq> NaN) c in
       if strategy = Str ''mean'' then np_mean col_data
       else if strategy = Str ''median'' then median_agg col_data
       else if strategy = Str ''mode'' then
         (case most_common_1 (Counter col_data) of [] \<Rightarrow> Inl IndexError | p # ps \<Rightarrow> Inr (fst p))
       else Inr strategy)"

fun fit_strategies :: "dataframe \<Rightarrow> (string \<times> cell) list \<Rightarrow> (string \<times> cell) list
    \<Rightarrow> error + (string \<times> cell) list" where
  "fit_strategies x [] iv = Inr iv"
| "fit_strategies x (p # ps) iv =
     and_then (impute_value x (fst p) (snd p)) (\<lambda>v. fit_strategies x ps (dict_set (fst p) v iv))"

definition MissingImputer_fit :: "missing_imputer \<Rightarrow> dataframe \<Rightarrow> error + missing_imputer" where
  "MissingImputer_fit self x =
     and_then (fit_strategies x (strategies self) (impute_values self)) (\<lambda>iv.
     Inr (self\<lparr>impute_values := iv\<rparr>))"

text \<open>\<^verbatim>\<open>x[col] = x[col].fillna(value)\<close> for every fitted column, in the dict's order.\<close>

definition fillna :: "string \<Rightarrow> cell \<Rightarrow> dataframe \<Rightarrow> dataframe" where
  "fillna col v x = x\<lparr>rows := map (\<lambda>r. if r col = NaN then r(col := v) else r) (rows x)\<rparr>"

fun fill_columns :: "(string \<times> cell) list \<Rightarrow> dataframe \<Rightarrow> error + dataframe" where
  "fill_columns [] x = Inr x"
| "fill_columns (p # ps) x =
     (if fst p \<in> set (columns x) then fill_columns ps (fillna (fst p) (snd p) x)
      else Inl KeyError)"

definition MissingImputer_transform :: "missing_imputer \<Rightarrow> dataframe \<Rightarrow> error + dataframe" where
  "MissingImputer_transform self x = fill_columns (impute_values self) x"

section \<open>The outlier handler\<close>

text \<open>
  A strategy is a Python list such as \<^verbatim>\<open>['quantile', [0.2, 0.8], 'na']\<close>: its items are
  scalars or lists again. Indexing raises IndexError out of range and TypeError on a
  number; a string gives its character.
\<close>

datatype pyval = PVal cell | PList "pyval list"

definition list_index :: "'a list \<Rightarrow> nat \<Rightarrow> error + 'a" where
  "list_index xs i = (if i < length xs then Inr (xs ! i) else Inl IndexError)"

definition py_index :: "pyval \<Rightarrow> nat \<Rightarrow> error + pyval" where
  "py_index v i = (case v of
       PList vs \<Rightarrow> list_index vs i
     | PVal (Str s) \<Rightarrow> (if i < length s then Inr (PVal (Str [s ! i])) else Inl IndexError)
     | PVal c \<Rightarrow> Inl TypeError)"

text \<open>
  \<^verbatim>\<open>Series.quantile(q)\<close>: linear interpolation over the values that are not missing;
  ValueError for \<^verbatim>\<open>q\<close> outside [0, 1], the missing marker for an empty sample.
\<close>

definition quantile :: "cell list \<Rightarrow> pyval \<Rightarrow> error + cell" where
  "quantile x q = (case q of
       PVal (Num p) \<Rightarrow>
         (if p < 0 \<or> 1 < p then Inl ValueError
          else if list_ex is_Str x then Inl TypeError
          else if nums x = [] then Inr NaN
          else Inr (Num (interp (sort (nums x)) p)))
     | _ \<Rightarrow> Inl TypeError)"

text \<open>Float arithmetic with the missing marker, which any operation propagates.\<close>

definition cell_arith :: "(real \<Rightarrow> real \<Rightarrow> real) \<Rightarrow> cell \<Rightarrow> cell \<Rightarrow> cell" where
  "cell_arith f a b = (case (a, b) of (Num u, Num v) \<Rightarrow> Num (f u v) | _ \<Rightarrow> NaN)"

definition find_iqr_bounds :: "cell list \<Rightarrow> error + pyval" where
  "find_iqr_bounds x =
     and_then (quantile x (PVal (Num 0.25))) (\<lambda>q1.
     and_then (quantile x (PVal (Num 0.75))) (\<lambda>q3.
     let iqr = cell_arith (-) q3 q1;
         lower_bound = cell_arith (-) q1 (cell_arith (*) (Num 1.5) iqr);
         upper_bound = cell_arith (+) q3 (cell_arith (*) (Num 1.5) iqr)
     in Inr (PList [PVal lower_bound, PVal upper_bound])))"

definition find_quantile_bounds :: "cell list \<Rightarrow> pyval \<Rightarrow> error + pyval" where
  "find_quantile_bounds x bounds =
     and_then (py_index bounds 0) (\<lambda>q0.
     and_then (quantile x q0) (\<lambda>lower_bound.
     and_then (py_index bounds 1) (\<lambda>q1.
     and_then (quantile x q1) (\<lambda>upper_bound.
     Inr (PList [PVal lower_bound, PVal upper_bound])))))"

record outlier_handler =
  oh_strategies :: "(string \<times> pyval list) list"
  outlier_bounds :: "(string \<times> pyval) list"
  fill_values :: "(string \<times> pyval) list"

definition OutlierHandler_init :: "(string \<times> pyval list) list \<Rightarrow> outlier_handler" where
  "OutlierHandler_init sts = \<lparr>oh_strategies = sts, outlier_bounds = [], fill_values = []\<rparr>"

text \<open>
  The body of the loop of \<^verbatim>\<open>OutlierHandler.fit\<close> for one column: the bounds and the
  fill value it stores. The last branch is the \<^verbatim>\<open>else\<close> of the source: it takes every
  method that is neither \<^verbatim>\<open>'quantile'\<close> nor \<^verbatim>\<open>'values'\<close>.
\<close>

definition fit_column :: "dataframe \<Rightarrow> string \<Rightarrow> pyval list \<Rightarrow> error + pyval \<times> pyval" where
  "fit_column x col strategy =
     and_then (list_index strategy 0) (\<lambda>method.
     if method = PVal (Str ''quantile'') then
       and_then (getcol x col) (\<lambda>c.
       and_then (list_index strategy 1) (\<lambda>qs.
       and_then (find_quantile_bounds c qs) (\<lambda>bounds.
       and_then (list_index strategy 2) (\<lambda>fill. Inr (bounds, fill)))))
     else if method = PVal (Str ''values'') then
       and_then (list_index strategy 1) (\<lambda>bounds.
       and_then (list_index strategy 2) (\<lambda>fill. Inr (bounds, fill)))
     else
       and_then (getcol x col) (\<lambda>c.
       and_then (find_iqr_bounds c) (\<lambda>bounds.
       and_then (list_index strategy 1) (\<lambda>fill. Inr (bounds, fill)))))"

fun fit_columns :: "dataframe \<Rightarrow> (string \<times> pyval list) list
    \<Rightarrow> (string \<times> pyval) list \<times> (string \<times> pyval) list
    \<Rightarrow> error + (string \<times> pyval) list \<times> (string \<times> pyval) list" where
  "fit_columns x [] tabs = Inr tabs"
| "fit_columns x (p # ps) tabs =
     and_then (fit_column x (fst p) (snd p)) (\<lambda>bf.
     fit_columns x ps (dict_set (fst p) (fst bf) (fst tabs), dict_set (fst p) (snd bf) (snd tabs)))"

definition OutlierHandler_fit :: "outlier_handler \<Rightarrow> dataframe \<Rightarrow> error + outlier_handler" where
  "OutlierHandler_fit self x =
     and_then (fit_columns x (oh_strategies self) (outlier_bounds self, fill_values self)) (\<lambda>tabs.
     Inr (self\<lparr>outlier_bounds := fst tabs, fill_values := snd tabs\<rparr>))"

text \<open>
  Elementwise \<^verbatim>\<open><\<close>: a comparison with the missing marker is false; numbers compare
  with numbers and strings with strings, anything else raises TypeError.
\<close>

fun cell_lt :: "cell \<Rightarrow> cell \<Rightarrow> error + bool" where
  "cell_lt NaN b = Inr False"
| "cell_lt a NaN = Inr False"
| "cell_lt (Num a) (Num b) = Inr (a < b)"
| "cell_lt (Str a) (Str b) = Inr (a < b)"
| "cell_lt a b = Inl TypeError"

fun mask :: "(cell \<Rightarrow> error + bool) \<Rightarrow> cell list \<Rightarrow> error + bool list" where
  "mask f [] = Inr []"
| "mask f (c # cs) = and_then (f c) (\<lambda>b. and_then (mask f cs) (\<lambda>bs. Inr (b # bs)))"

text \<open>
  \<^verbatim>\<open>x.loc[(x[col] < bound), col] = v\<close> and \<^verbatim>\<open>x.loc[(x[col] > bound), col] = v\<close>. A bound
  that is a list does not compare with a column (ValueError).
\<close>

definition set_where :: "dataframe \<Rightarrow> string \<Rightarrow> bool list \<Rightarrow> cell \<Rightarrow> dataframe" where
  "set_where x col m v = x\<lparr>rows := map2 (\<lambda>b r. if b then r(col := v) else r) m (rows x)\<rparr>"

definition set_below :: "string \<Rightarrow> pyval \<Rightarrow> cell \<Rightarrow> dataframe \<Rightarrow> error + dataframe" where
  "set_below col bound v x =
     and_then (getcol x col) (\<lambda>c.
     case bound of PList bs \<Rightarrow> Inl ValueError
     | PVal b \<Rightarrow> and_then (mask (\<lambda>a. cell_lt a b) c) (\<lambda>m. Inr (set_where x col m v)))"

definition set_above :: "string \<Rightarrow> pyval \<Rightarrow> cell \<Rightarrow> dataframe \<Rightarrow> error + dataframe" where
  "set_above col bound v x =
     and_then (getcol x col) (\<lambda>c.
     case bound of PList bs \<Rightarrow> Inl ValueError
     | PVal b \<Rightarrow> and_then (mask (\<lambda>a. cell_lt b a) c) (\<lambda>m. Inr (set_where x col m v)))"

definition dict_get :: "('k \<times> 'v) list \<Rightarrow> 'k \<Rightarrow> error + 'v" where
  "dict_get d k = (case map_of d k of None \<Rightarrow> Inl KeyError | Some v \<Rightarrow> Inr v)"

definition scalar :: "pyval \<Rightarrow> error + cell" where
  "scalar v = (case v of PVal c \<Rightarrow> Inr c | PList vs \<Rightarrow> Inl ValueError)"

text \<open>The body of the loop of \<^verbatim>\<open>OutlierHandler.transform\<close> for one column.\<close>

definition transform_column :: "outlier_handler \<Rightarrow> string \<Rightarrow> pyval list \<Rightarrow> dataframe
    \<Rightarrow> error + dataframe" where
  "transform_column self col strategy x =
     and_then (list_index strategy 0) (\<lambda>method.
     and_then (dict_get (outlier_bounds self) col) (\<lambda>bounds.
     and_then (py_index bounds 0) (\<lambda>lower_bound.
     and_then (py_index bounds 1) (\<lambda>upper_bound.
     and_then (dict_get (fill_values self) col) (\<lambda>fill_value.
     if fill_value = PVal (Str ''na'') then
       and_then (set_below col lower_bound NaN x) (set_above col upper_bound NaN)
     else
       and_then (scalar lower_bound) (\<lambda>lo.
       and_then (set_below col lower_bound lo x) (\<lambda>x1.
       and_then (scalar upper_bound) (\<lambda>hi.
       set_above col upper_bound hi x1))))))))"

fun transform_columns :: "outlier_handler \<Rightarrow> (string \<times> pyval list) list \<Rightarrow> dataframe
    \<Rightarrow> error + dataframe" where
  "transform_columns self [] x = Inr x"
| "transform_columns self (p # ps) x =
     and_then (transform_column self (fst p) (snd p) x) (transform_columns self ps)"

definition OutlierHandler_transform :: "outlier_handler \<Rightarrow> dataframe \<Rightarrow> error + dataframe" where
  "OutlierHandler_transform self x = transform_columns self (oh_strategies self) x"

section \<open>Vocabulary of the statements\<close>

text \<open>
  The frame the masks read the source column from has as many rows as \<^verbatim>\<open>x\<close>; every cell
  that is present in \<^verbatim>\<open>x\<close> has the same value in \<^verbatim>\<open>x'\<close>; the imputer cut down to its
  first \<^verbatim>\<open>n\<close> pairs (\<^verbatim>\<open>zip\<close> stops at the shorter list); the state a successful
  \<^verbatim>\<open>fit\<close> returns.
\<close>

definition aligned :: "dataframe option \<Rightarrow> dataframe \<Rightarrow> bool" where
  "aligned kf x = (case kf of None \<Rightarrow> True | Some bx \<Rightarrow> length (rows bx) = length (rows x))"

definition keeps_present :: "dataframe \<Rightarrow> dataframe \<Rightarrow> bool" where
  "keeps_present x x' = (length (rows x') = length (rows x) \<and>
     (\<forall>i<length (rows x). \<forall>c. (rows x ! i) c \<noteq> NaN \<longrightarrow> (rows x' ! i) c = (rows x ! i) c))"

definition first_pairs :: "nat \<Rightarrow> ('a pair_imputer_scheme) \<Rightarrow> ('a pair_imputer_scheme)" where
  "first_pairs n self = self\<lparr>dest_cols := map_option (take n) (dest_cols self)\<rparr>"

definition fitted :: "error + 'a \<Rightarrow> 'a \<Rightarrow> 'a" where
  "fitted r d = (case r of Inr s \<Rightarrow> s | Inl e \<Rightarrow> d)"

text \<open>
  A strategy of the outlier handler with every method other than \<^verbatim>\<open>'quantile'\<close> and
  \<^verbatim>\<open>'values'\<close> renamed to \<^verbatim>\<open>'iqr'\<close>, and the two tables of a fitted handler.
\<close>

definition as_iqr :: "pyval list \<Rightarrow> pyval list" where
  "as_iqr strategy = (case strategy of [] \<Rightarrow> []
     | method # rest \<Rightarrow>
         if method = PVal (Str ''quantile'') \<or> method = PVal (Str ''values'') then strategy
         else PVal (Str ''iqr'') # rest)"

definition fitted_tables :: "error + outlier_handler
    \<Rightarrow> error + (string \<times> pyval) list \<times> (string \<times> pyval) list" where
  "fitted_tables r = (case r of Inl e \<Rightarrow> Inl e | Inr s \<Rightarrow> Inr (outlier_bounds s, fill_values s))"

text \<open>
  What \<^verbatim>\<open>transform\<close> of the outlier handler does to one cell \<^verbatim>\<open>v\<close> of a column with the
  bounds \<^verbatim>\<open>lo\<close> and \<^verbatim>\<open>hi\<close>: the two masked assignments, one after the other.
\<close>

definition clip_cell :: "pyval \<Rightarrow> cell \<Rightarrow> cell \<Rightarrow> cell \<Rightarrow> error + cell" where
  "clip_cell fill lo hi v =
     and_then (cell_lt v lo) (\<lambda>b1.
     let v1 = (if b1 then (if fill = PVal (Str ''na'') then NaN else lo) else v) in
     and_then (cell_lt hi v1) (\<lambda>b2.
     Inr (if b2 then (if fill = PVal (Str ''na'') then NaN else hi) else v1)))"


definition first_seen :: "'a list \<Rightarrow> 'a list" where
  "first_seen vs = rev (remdups (rev vs))"

text \<open>
  The group of a key: the destination values, in row order, of the rows of the fitted
  frame that have this key and a destination value. The key the masks of \<^verbatim>\<open>transform\<close>
  read for row \<^verbatim>\<open>i\<close>, and the bin of a row under a fitted discretizer.
\<close>

definition group_of :: "(row \<Rightarrow> cell) \<Rightarrow> string \<Rightarrow> dataframe \<Rightarrow> cell \<Rightarrow> cell list" where
  "group_of key t x k = map (\<lambda>r. r t) (filter (\<lambda>r. key r = k \<and> r t \<noteq> NaN) (rows x))"

definition key_of :: "dataframe option \<Rightarrow> dataframe \<Rightarrow> nat \<Rightarrow> string \<Rightarrow> cell" where
  "key_of kf x i s = (rows (case kf of None \<Rightarrow> x | Some bx \<Rightarrow> bx) ! i) s"

definition source_bin :: "num_imputer \<Rightarrow> row \<Rightarrow> string \<Rightarrow> cell" where
  "source_bin fs r s = (case src_cols fs of None \<Rightarrow> NaN | Some ss \<Rightarrow>
     case kbins_discretizor fs of None \<Rightarrow> NaN | Some kb \<Rightarrow> bin_row ss kb r s)"

text \<open>
  The table stored for a pair has no list whose key equals \<^verbatim>\<open>k\<close>. Every cell of a column
  is unchanged in a row whose source key has no entry in the table of any pair that
  fills the column. A key all of whose fitted rows lack the destination value has no
  entry (for a pair that does not share its lookup key).
\<close>

definition no_entry :: "(string \<rightharpoonup> cell list list) \<Rightarrow> string \<times> string \<Rightarrow> cell \<Rightarrow> bool" where
  "no_entry d p k = (\<forall>tbl. d (lookup_key p) = Some tbl \<longrightarrow> (\<forall>cat\<in>set tbl. \<not> cell_eq k (hd cat)))"



text \<open>
  A frame with the missing cells of the columns \<^verbatim>\<open>cs\<close> replaced by zero; the source
  columns of an imputer that are not destination columns as well; a function applied
  to the result of a computation that raised nothing.
\<close>

definition zero_fill :: "string set \<Rightarrow> dataframe \<Rightarrow> dataframe" where
  "zero_fill cs x = x\<lparr>rows := map (\<lambda>r c. if c \<in> cs then fillna0 (r c) else r c) (rows x)\<rparr>"

definition pure_sources :: "'a pair_imputer_scheme \<Rightarrow> string set" where
  "pure_sources fs = (case src_cols fs of None \<Rightarrow> {} | Some ss \<Rightarrow>
     case dest_cols fs of None \<Rightarrow> {} | Some ds \<Rightarrow> set ss - set ds)"

definition on_result :: "('a \<Rightarrow> 'a) \<Rightarrow> error + 'a \<Rightarrow> error + 'a" where
  "on_result f r = (case r of Inl e \<Rightarrow> Inl e | Inr v \<Rightarrow> Inr (f v))"

text \<open>
  A transform applied to its own result. The invariants a first pass leaves behind: a
  column of the outlier handler whose cells the two masked assignments map to
  themselves; a column of the scalar-strategy imputer that has no missing cell left
  to fill; a table no entry of which assigns a value to a cell that is still missing.
  An imputer none of whose destination columns is a source column as well.
\<close>

definition twice :: "('a \<Rightarrow> error + 'a) \<Rightarrow> 'a \<Rightarrow> error + 'a" where
  "twice f x = and_then (f x) f"

definition settled :: "outlier_handler \<Rightarrow> string \<Rightarrow> dataframe \<Rightarrow> bool" where
  "settled self col z = (\<forall>bounds lo hi fill.
     dict_get (outlier_bounds self) col = Inr bounds \<and>
     py_index bounds 0 = Inr (PVal lo) \<and> py_index bounds 1 = Inr (PVal hi) \<and>
     dict_get (fill_values self) col = Inr fill \<longrightarrow>
     (\<forall>r\<in>set (rows z). clip_cell fill lo hi (r col) = Inr (r col)))"

definition filled :: "string \<Rightarrow> cell \<Rightarrow> dataframe \<Rightarrow> bool" where
  "filled col v z = (v = NaN \<or> (\<forall>r\<in>set (rows z). r col \<noteq> NaN))"

definition stable :: "(nat \<Rightarrow> cell) \<Rightarrow> string \<Rightarrow> cell list list \<Rightarrow> dataframe \<Rightarrow> bool" where
  "stable k t tbl z = (\<forall>i<length (rows z). (rows z ! i) t = NaN \<longrightarrow>
     (\<forall>cat\<in>set tbl. cell_eq (k i) (hd cat) \<longrightarrow> hd (tl cat) = NaN))"

definition separate :: "'a pair_imputer_scheme \<Rightarrow> bool" where
  "separate self = (case src_cols self of None \<Rightarrow> True | Some ss \<Rightarrow>
     case dest_cols self of None \<Rightarrow> True | Some ds \<Rightarrow> list_all (\<lambda>s. s \<notin> set ds) ss)"

text \<open>
  The pairs the loop of \<^verbatim>\<open>transform\<close> goes through, \<^verbatim>\<open>zip(self.src_cols, self.dest_cols)\<close>.
  Some pair of two different columns reads a source column that a later pair of two
  different columns fills.
\<close>

definition pairs_of :: "'a pair_imputer_scheme \<Rightarrow> (string \<times> string) list" where
  "pairs_of self = (case src_cols self of None \<Rightarrow> [] | Some ss \<Rightarrow>
     case dest_cols self of None \<Rightarrow> [] | Some ds \<Rightarrow> zip ss ds)"

fun fills_later :: "(string \<times> string) list \<Rightarrow> bool" where
  "fills_later [] = False"
| "fills_later (p # ps) =
     ((fst p \<noteq> snd p \<and> list_ex (\<lambda>q. fst q \<noteq> snd q \<and> snd q = fst p) ps) \<or> fills_later ps)"

section \<open>Worked examples\<close>

text \<open>
  A frame to fit on and a frame to transform, with two categorical columns, two
  numeric columns and the numeric destination \<^verbatim>\<open>y\<close>; the destination is shared by two
  pairs.
\<close>

definition ex_F :: dataframe where
  "ex_F = \<lparr>columns = [''a'', ''b'', ''x'', ''z'', ''y''],
     rows = [(\<lambda>c. NaN)(''a'' := Str ''p'', ''b'' := Str ''u'', ''x'' := Num 1, ''z'' := Num 10, ''y'' := Num 10),
             (\<lambda>c. NaN)(''a'' := Str ''p'', ''b'' := Str ''v'', ''x'' := Num 2, ''z'' := Num 90, ''y'' := Num 20),
             (\<lambda>c. NaN)(''a'' := Str ''q'', ''b'' := Str ''v'', ''x'' := Num 9, ''z'' := Num 80, ''y'' := Num 40)]\<rparr>"

definition ex_D :: dataframe where
  "ex_D = \<lparr>columns = [''a'', ''b'', ''x'', ''z'', ''y''],
     rows = [(\<lambda>c. NaN)(''a'' := Str ''p'', ''b'' := Str ''v'', ''x'' := Num 1, ''z'' := Num 90),
             (\<lambda>c. NaN)(''a'' := Str ''r'', ''b'' := Str ''u'', ''x'' := Num 3, ''z'' := Num 20),
             (\<lambda>c. NaN)(''a'' := Str ''q'', ''b'' := Str ''u'', ''x'' := Num 9, ''z'' := Num 10, ''y'' := Num 7)]\<rparr>"

definition ex_cat :: pair_imputer where
  "ex_cat = fitted (CatAndNumImputer_fit (pair_imputer_init [(''a'', ''y''), (''b'', ''y'')]) ex_F)
     (pair_imputer_init [])"

definition ex_num :: num_imputer where
  "ex_num = fitted (NumAndNumImputer_fit (num_imputer_init [(''x'', ''y''), (''z'', ''y'')] 2 Uniform) ex_F)
     (num_imputer_init [] 2 Uniform)"

definition ex_cat_out :: dataframe where
  "ex_cat_out = fitted (CatAndNumImputer_transform ex_cat ex_D) ex_D"

definition ex_num_out :: dataframe where
  "ex_num_out = fitted (NumAndNumImputer_transform ex_num ex_D) ex_D"

text \<open>
  Two pairs of different columns whose names concatenate to the same lookup key,
  fitted by the numeric-source and by the categorical-source class.
\<close>

definition ex_clash_pairs :: "(string \<times> string) list" where
  "ex_clash_pairs = [(''a_b'', ''c''), (''a'', ''b_c'')]"

definition ex_clash_F :: dataframe where
  "ex_clash_F = \<lparr>columns = [''a_b'', ''c'', ''a'', ''b_c''],
     rows = [(\<lambda>c. NaN)(''a_b'' := Num 1, ''c'' := Num 5, ''a'' := Num 1, ''b_c'' := Num 100),
             (\<lambda>c. NaN)(''a_b'' := Num 2, ''c'' := Num 7, ''a'' := Num 2, ''b_c'' := Num 300)]\<rparr>"

definition ex_clash_D :: dataframe where
  "ex_clash_D = \<lparr>columns = [''a_b'', ''c'', ''a'', ''b_c''],
     rows = [(\<lambda>c. NaN)(''a_b'' := Num 1, ''a'' := Num 2, ''b_c'' := Num 0)]\<rparr>"

definition ex_clash_num :: num_imputer where
  "ex_clash_num = fitted (NumAndNumImputer_fit (num_imputer_init ex_clash_pairs 2 Uniform) ex_clash_F)
     (num_imputer_init [] 2 Uniform)"

definition ex_clash_binned :: dataframe where
  "ex_clash_binned = fitted (binned_frame [''a_b'', ''a'']
     (case kbins_discretizor ex_clash_num of Some kb \<Rightarrow> kb | None \<Rightarrow> []) ex_clash_F) ex_clash_F"

definition ex_clash_cat :: pair_imputer where
  "ex_clash_cat = fitted (CatAndNumImputer_fit (pair_imputer_init ex_clash_pairs) ex_clash_F)
     (pair_imputer_init [])"

text \<open>
  The frame of the example of the outlier handler, and configurations that name a
  column the frame does not have.
\<close>

definition ex_oh_df :: dataframe where
  "ex_oh_df = \<lparr>columns = [''a'', ''b'', ''c''],
     rows = [(\<lambda>c. NaN)(''a'' := Num 1, ''b'' := Num (- 100), ''c'' := Num 540),
             (\<lambda>c. NaN)(''a'' := Num 2, ''b'' := Num 45, ''c'' := Num 10),
             (\<lambda>c. NaN)(''a'' := Num 100, ''b'' := Num 200, ''c'' := Num 59),
             (\<lambda>c. NaN)(''a'' := Num 1000, ''b'' := Num 2000, ''c'' := Num 2)]\<rparr>"

definition ex_absent_mi :: missing_imputer where
  "ex_absent_mi = MissingImputer_init [(''a'', Str ''mean''), (''d'', Str ''mode'')]"

definition ex_absent_ci :: pair_imputer where
  "ex_absent_ci = pair_imputer_init [(''a'', ''b''), (''a'', ''d'')]"

definition ex_absent_ni :: num_imputer where
  "ex_absent_ni = num_imputer_init [(''d'', ''b'')] 5 Quantile"

text \<open>
  The handler of the notebook, fitted on its frame, and a handler whose literal bounds
  are given in the wrong order.
\<close>

definition ex_oh :: outlier_handler where
  "ex_oh = fitted (OutlierHandler_fit (OutlierHandler_init
     [(''a'', [PVal (Str ''quantile''), PList [PVal (Num 0.2), PVal (Num 0.8)], PVal (Str ''na'')]),
      (''b'', [PVal (Str ''values''), PList [PVal (Num 0), PVal (Num 200)], PVal (Str ''clip'')]),
      (''c'', [PVal (Str ''iqr''), PVal (Str ''clip'')])]) ex_oh_df) (OutlierHandler_init [])"

definition ex_oh_out :: dataframe where
  "ex_oh_out = fitted (OutlierHandler_transform ex_oh ex_oh_df) ex_oh_df"

definition ex_inverted :: outlier_handler where
  "ex_inverted = fitted (OutlierHandler_fit (OutlierHandler_init
     [(''b'', [PVal (Str ''values''), PList [PVal (Num 200), PVal (Num 0)], PVal (Str ''clip'')])])
     ex_oh_df) (OutlierHandler_init [])"








definition ex_gap :: dataframe where
  "ex_gap = \<lparr>columns = [''x'', ''y''],
     rows = [(\<lambda>c. NaN)(''x'' := Num 4, ''y'' := Num 10),
             (\<lambda>c. NaN)(''y'' := Num 30),
             (\<lambda>c. NaN)(''x'' := Num 8, ''y'' := Num 50),
             (\<lambda>c. NaN)]\<rparr>"

definition ex_gap_fs :: num_imputer where
  "ex_gap_fs = fitted (NumAndNumImputer_fit (num_imputer_init [(''x'', ''y'')] 2 Uniform) ex_gap)
     (num_imputer_init [] 2 Uniform)"

definition ex_gap_nc :: num_imputer where
  "ex_gap_nc = fitted (NumAndCatImputer_fit (num_imputer_init [(''x'', ''y'')] 2 Uniform) ex_gap)
     (num_imputer_init [] 2 Uniform)"

text \<open>
  A chain of two pairs: the destination \<^verbatim>\<open>y\<close> of the first is the source of the second.
\<close>

definition ex_chain_F :: dataframe where
  "ex_chain_F = \<lparr>columns = [''x'', ''y'', ''z''],
     rows = [(\<lambda>c. NaN)(''x'' := Num 1, ''y'' := Num 10),
             (\<lambda>c. NaN)(''x'' := Num 9, ''y'' := Num 50, ''z'' := Num 500)]\<rparr>"

definition ex_chain_D :: dataframe where
  "ex_chain_D = \<lparr>columns = [''x'', ''y'', ''z''],
     rows = [(\<lambda>c. NaN)(''x'' := Num 9)]\<rparr>"

definition ex_chain :: num_imputer where
  "ex_chain = fitted (NumAndNumImputer_fit
     (num_imputer_init [(''x'', ''y''), (''y'', ''z'')] 2 Uniform) ex_chain_F)
     (num_imputer_init [] 2 Uniform)"

definition ex_chain_once :: dataframe where
  "ex_chain_once = fitted (NumAndNumImputer_transform ex_chain ex_chain_D) ex_chain_D"

definition ex_chain_twice :: dataframe where
  "ex_chain_twice = fitted (NumAndNumImputer_transform ex_chain ex_chain_once) ex_chain_D"

text \<open>
  Two pairs with the destination \<^verbatim>\<open>y\<close>, and a row whose bin of \<^verbatim>\<open>x\<close> has no fitted
  group: all fitted rows of that bin lack \<^verbatim>\<open>y\<close>.
\<close>

definition ex_skip_F :: dataframe where
  "ex_skip_F = \<lparr>columns = [''x'', ''z'', ''y''],
     rows = [(\<lambda>c. NaN)(''x'' := Num 1, ''z'' := Num 10),
             (\<lambda>c. NaN)(''x'' := Num 9, ''z'' := Num 90, ''y'' := Num 40),
             (\<lambda>c. NaN)(''x'' := Num 8, ''z'' := Num 20, ''y'' := Num 20)]\<rparr>"

definition ex_skip_D :: dataframe where
  "ex_skip_D = \<lparr>columns = [''x'', ''z'', ''y''],
     rows = [(\<lambda>c. NaN)(''x'' := Num 2, ''z'' := Num 15)]\<rparr>"

definition ex_skip :: num_imputer where
  "ex_skip = fitted (NumAndNumImputer_fit
     (num_imputer_init [(''x'', ''y''), (''z'', ''y'')] 2 Uniform) ex_skip_F)
     (num_imputer_init [] 2 Uniform)"

definition ex_skip_out :: dataframe where
  "ex_skip_out = fitted (NumAndNumImputer_transform ex_skip ex_skip_D) ex_skip_D"

definition ex_clash_out :: dataframe where
  "ex_clash_out = fitted (NumAndNumImputer_transform ex_clash_num ex_clash_D) ex_clash_D"

text \<open>
  A chain of two categorical pairs, in both orders: the pair that fills \<^verbatim>\<open>b\<close> before
  the pair that reads it, and after it.
\<close>

definition ex_link_F :: dataframe where
  "ex_link_F = \<lparr>columns = [''a'', ''b'', ''c''],
     rows = [(\<lambda>c. NaN)(''a'' := Str ''q'', ''b'' := Str ''v'', ''c'' := Str ''n''),
             (\<lambda>c. NaN)(''a'' := Str ''p'', ''b'' := Str ''u'', ''c'' := Str ''m'')]\<rparr>"

definition ex_link_D :: dataframe where
  "ex_link_D = \<lparr>columns = [''a'', ''b'', ''c''],
     rows = [(\<lambda>c. NaN)(''a'' := Str ''q'')]\<rparr>"

definition ex_link :: pair_imputer where
  "ex_link = fitted (CatAndCatImputer_fit
     (pair_imputer_init [(''a'', ''b''), (''b'', ''c'')]) ex_link_F) (pair_imputer_init [])"

definition ex_link_out :: dataframe where
  "ex_link_out = fitted (CatAndCatImputer_transform ex_link ex_link_D) ex_link_D"

definition ex_back :: pair_imputer where
  "ex_back = fitted (CatAndCatImputer_fit
     (pair_imputer_init [(''b'', ''c''), (''a'', ''b'')]) ex_link_F) (pair_imputer_init [])"

definition ex_back_once :: dataframe where
  "ex_back_once = fitted (CatAndCatImputer_transform ex_back ex_link_D) ex_link_D"

definition ex_back_twice :: dataframe where
  "ex_back_twice = fitted (CatAndCatImputer_transform ex_back ex_back_once) ex_link_D"

section \<open>Lemmas\<close>

lemma and_then_Inl [simp]: "and_then (Inl e) f = Inl e"
  by (simp add: and_then_def)

lemma and_then_Inr [simp]: "and_then (Inr v) f = f v"
  by (simp add: and_then_def)

lemma and_then_eq_Inr: "and_then m f = Inr y \<longleftrightarrow> (\<exists>v. m = Inr v \<and> f v = Inr y)"
  by (cases m) simp_all

lemma getcol_Inr: "getcol x c = Inr ks \<longleftrightarrow> c \<in> set (columns x) \<and> ks = map (\<lambda>r. r c) (rows x)"
  by (auto simp: getcol_def)

lemma fill_row_keep: "r c \<noteq> NaN \<or> c \<noteq> t \<Longrightarrow> fill_row k sv t dv r c = r c"
  by (auto simp: fill_row_def)

lemma columns_assign [simp]: "columns (assign ks sv t dv x) = columns x"
  by (simp add: assign_def)

lemma length_assign [simp]:
  "length (rows (assign ks sv t dv x)) = min (length ks) (length (rows x))"
  by (simp add: assign_def)

lemma nth_assign:
  "i < length ks \<Longrightarrow> i < length (rows x) \<Longrightarrow>
   rows (assign ks sv t dv x) ! i = fill_row (ks ! i) sv t dv (rows x ! i)"
  by (simp add: assign_def)

lemma key_length:
  "aligned kf x \<Longrightarrow> getcol (case kf of None \<Rightarrow> x | Some bx \<Rightarrow> bx) s = Inr ks \<Longrightarrow>
   length ks = length (rows x)"
  by (auto simp: aligned_def getcol_Inr split: option.splits)

lemma aligned_assign:
  "aligned kf x \<Longrightarrow> length ks = length (rows x) \<Longrightarrow> aligned kf (assign ks sv t dv x)"
  by (simp add: aligned_def split: option.splits)

lemma apply_table_keeps:
  "apply_table kf s t tbl x = Inr x' \<Longrightarrow> aligned kf x \<Longrightarrow>
   columns x' = columns x \<and> length (rows x') = length (rows x) \<and>
   (\<forall>i<length (rows x). \<forall>c. (rows x ! i) c \<noteq> NaN \<or> c \<noteq> t \<longrightarrow> (rows x' ! i) c = (rows x ! i) c)"
proof (induction tbl arbitrary: x)
  case Nil
  then show ?case by simp
next
  case (Cons cat cats)
  from Cons.prems(1) obtain sv dv rest ks where cat: "cat = sv # dv # rest"
    and ks: "getcol (case kf of None \<Rightarrow> x | Some bx \<Rightarrow> bx) s = Inr ks"
    and rec: "apply_table kf s t cats (assign ks sv t dv x) = Inr x'"
    by (auto simp: and_then_eq_Inr split: list.splits)
  have len: "length ks = length (rows x)"
    using key_length [OF Cons.prems(2) ks] .
  let ?x2 = "assign ks sv t dv x"
  have al2: "aligned kf ?x2"
    using aligned_assign [OF Cons.prems(2) len] .
  note ih = Cons.IH [OF rec al2]
  have l2: "length (rows ?x2) = length (rows x)"
    using len by simp
  show ?case
  proof (intro conjI allI impI)
    show "columns x' = columns x" using ih by simp
    show "length (rows x') = length (rows x)" using ih l2 by simp
  next
    fix i c
    assume i: "i < length (rows x)" and c: "(rows x ! i) c \<noteq> NaN \<or> c \<noteq> t"
    have step: "(rows ?x2 ! i) c = (rows x ! i) c"
      using i len c by (simp add: nth_assign fill_row_keep)
    have "(rows x' ! i) c = (rows ?x2 ! i) c"
      using ih i l2 c step by auto
    then show "(rows x' ! i) c = (rows x ! i) c"
      using step by simp
  qed
qed

lemma aligned_same_length:
  "aligned kf x \<Longrightarrow> length (rows x') = length (rows x) \<Longrightarrow> aligned kf x'"
  by (simp add: aligned_def split: option.splits)

lemma impute_pairs_keeps:
  "impute_pairs kf d ps x = Inr x' \<Longrightarrow> aligned kf x \<Longrightarrow>
   columns x' = columns x \<and> length (rows x') = length (rows x) \<and>
   (\<forall>i<length (rows x). \<forall>c. (rows x ! i) c \<noteq> NaN \<or> c \<notin> snd ` set ps \<longrightarrow>
      (rows x' ! i) c = (rows x ! i) c)"
proof (induction ps arbitrary: x)
  case Nil
  then show ?case by simp
next
  case (Cons p ps)
  from Cons.prems(1) obtain tbl x1 where
    tbl: "d (lookup_key p) = Some tbl"
    and x1: "apply_table kf (fst p) (snd p) tbl x = Inr x1"
    and rec: "impute_pairs kf d ps x1 = Inr x'"
    by (auto simp: and_then_eq_Inr split: option.splits)
  note a = apply_table_keeps [OF x1 Cons.prems(2)]
  have al1: "aligned kf x1"
    using aligned_same_length [OF Cons.prems(2)] a by simp
  note ih = Cons.IH [OF rec al1]
  show ?case
  proof (intro conjI allI impI)
    show "columns x' = columns x" using ih a by simp
    show "length (rows x') = length (rows x)" using ih a by simp
  next
    fix i c
    assume i: "i < length (rows x)"
      and c: "(rows x ! i) c \<noteq> NaN \<or> c \<notin> snd ` set (p # ps)"
    have step: "(rows x1 ! i) c = (rows x ! i) c"
      using a i c by auto
    have "(rows x' ! i) c = (rows x1 ! i) c"
      using ih i a c step by auto
    then show "(rows x' ! i) c = (rows x ! i) c"
      using step by simp
  qed
qed

lemma impute_pairs_append:
  "impute_pairs kf d (ps1 @ ps2) x = and_then (impute_pairs kf d ps1 x) (impute_pairs kf d ps2)"
proof (induction ps1 arbitrary: x)
  case Nil
  then show ?case by simp
next
  case (Cons p ps1)
  show ?case
  proof (cases "d (lookup_key p)")
    case None
    then show ?thesis by simp
  next
    case (Some tbl)
    then show ?thesis
      by (cases "apply_table kf (fst p) (snd p) tbl x") (simp_all add: Cons.IH)
  qed
qed

section \<open>Later pairs keep what earlier pairs filled\<close>

lemma zip_take_right: "zip xs (take n ys) = take n (zip xs ys)"
proof (induction xs arbitrary: n ys)
  case Nil
  then show ?case by simp
next
  case (Cons a xs)
  then show ?case
    by (cases n; cases ys) simp_all
qed

lemma impute_pairs_keeps_present:
  "impute_pairs kf d ps x = Inr x' \<Longrightarrow> aligned kf x \<Longrightarrow> keeps_present x x'"
  using impute_pairs_keeps [of kf d ps x x'] by (simp add: keeps_present_def)

lemma impute_pairs_split:
  assumes "impute_pairs kf d ps x = Inr x'" and "aligned kf x"
  shows "\<exists>x1. impute_pairs kf d (take n ps) x = Inr x1 \<and> keeps_present x x1 \<and> keeps_present x1 x'"
proof -
  have "impute_pairs kf d (take n ps @ drop n ps) x = Inr x'"
    using assms(1) by simp
  then obtain x1 where x1: "impute_pairs kf d (take n ps) x = Inr x1"
    and x': "impute_pairs kf d (drop n ps) x1 = Inr x'"
    unfolding impute_pairs_append by (auto simp: and_then_eq_Inr)
  have k1: "keeps_present x x1"
    using impute_pairs_keeps_present [OF x1 assms(2)] .
  have "aligned kf x1"
    using aligned_same_length [OF assms(2)] k1 by (simp add: keeps_present_def)
  then have "keeps_present x1 x'"
    using impute_pairs_keeps_present [OF x'] by simp
  with x1 k1 show ?thesis by blast
qed

lemma cat_transform_first_pairs:
  assumes "cat_transform self x = Inr x'"
  shows "\<exists>x1. cat_transform (first_pairs n self) x = Inr x1 \<and> keeps_present x x1 \<and> keeps_present x1 x'"
proof -
  from assms obtain ss ds where s: "src_cols self = Some ss" and d: "dest_cols self = Some ds"
    and t: "impute_pairs None (impute_value_dict self) (zip ss ds) x = Inr x'"
    by (auto simp: cat_transform_def split: option.splits)
  have al: "aligned None x" by (simp add: aligned_def)
  have "cat_transform (first_pairs n self) x =
      impute_pairs None (impute_value_dict self) (take n (zip ss ds)) x"
    using s d by (simp add: cat_transform_def first_pairs_def zip_take_right)
  then show ?thesis
    using impute_pairs_split [OF t al, of n] by simp
qed

lemma binned_frame_aligned:
  "binned_frame ss kb x = Inr bx \<Longrightarrow> aligned (Some bx) x"
  by (auto simp: binned_frame_def aligned_def and_then_eq_Inr split: if_splits)

lemma num_transform_first_pairs:
  assumes "num_transform self x = Inr x'"
  shows "\<exists>x1. num_transform (first_pairs n self) x = Inr x1 \<and> keeps_present x x1 \<and> keeps_present x1 x'"
proof -
  from assms obtain ss ds kb bx where s: "src_cols self = Some ss" and d: "dest_cols self = Some ds"
    and k: "kbins_discretizor self = Some kb" and b: "binned_frame ss kb x = Inr bx"
    and t: "impute_pairs (Some bx) (impute_value_dict self) (zip ss ds) x = Inr x'"
    by (auto simp: num_transform_def and_then_eq_Inr split: option.splits)
  have al: "aligned (Some bx) x" using binned_frame_aligned [OF b] .
  have "num_transform (first_pairs n self) x =
      impute_pairs (Some bx) (impute_value_dict self) (take n (zip ss ds)) x"
    using s d k b by (simp add: num_transform_def first_pairs_def zip_take_right)
  then show ?thesis
    using impute_pairs_split [OF t al, of n] by simp
qed

lemma fitted_eq: "\<not> isl r \<Longrightarrow> r = Inr (fitted r d)"
  by (cases r) (simp_all add: fitted_def)

lemma ex_cat_out: "CatAndNumImputer_transform ex_cat ex_D = Inr ex_cat_out"
proof -
  have "\<not> isl (CatAndNumImputer_transform ex_cat ex_D)" by code_simp
  then show ?thesis unfolding ex_cat_out_def by (rule fitted_eq)
qed

lemma ex_num_out: "NumAndNumImputer_transform ex_num ex_D = Inr ex_num_out"
proof -
  have "\<not> isl (NumAndNumImputer_transform ex_num ex_D)" by code_simp
  then show ?thesis unfolding ex_num_out_def by (rule fitted_eq)
qed

text \<open>
  C3. The pairs are applied in the order of the loop, and every assignment is masked
  by the cells that are still missing: the frame after the first \<^verbatim>\<open>n\<close> pairs keeps
  every cell present in the input, and the final frame keeps every cell present after
  the first \<^verbatim>\<open>n\<close> pairs, so a cell an earlier pair filled is not overwritten by a later
  pair, and no cell present in the input changes.
\<close>

theorem filled_cells_are_kept:
  "(CatAndNumImputer_transform cs x = Inr x' \<longrightarrow>
      (\<exists>x1. CatAndNumImputer_transform (first_pairs n cs) x = Inr x1 \<and>
            keeps_present x x1 \<and> keeps_present x1 x' \<and> keeps_present x x')) \<and>
   (NumAndNumImputer_transform ns y = Inr y' \<longrightarrow>
      (\<exists>y1. NumAndNumImputer_transform (first_pairs n ns) y = Inr y1 \<and>
            keeps_present y y1 \<and> keeps_present y1 y' \<and> keeps_present y y'))"
proof (intro conjI impI)
  assume a: "CatAndNumImputer_transform cs x = Inr x'"
  then obtain x1 where "cat_transform (first_pairs n cs) x = Inr x1"
    "keeps_present x x1" "keeps_present x1 x'"
    using cat_transform_first_pairs [of cs x x' n] by (auto simp: CatAndNumImputer_transform_def)
  moreover from this have "keeps_present x x'" by (simp add: keeps_present_def)
  ultimately show "\<exists>x1. CatAndNumImputer_transform (first_pairs n cs) x = Inr x1 \<and>
            keeps_present x x1 \<and> keeps_present x1 x' \<and> keeps_present x x'"
    by (auto simp: CatAndNumImputer_transform_def)
next
  assume a: "NumAndNumImputer_transform ns y = Inr y'"
  then obtain y1 where "num_transform (first_pairs n ns) y = Inr y1"
    "keeps_present y y1" "keeps_present y1 y'"
    using num_transform_first_pairs [of ns y y' n] by (auto simp: NumAndNumImputer_transform_def)
  moreover from this have "keeps_present y y'" by (simp add: keeps_present_def)
  ultimately show "\<exists>y1. NumAndNumImputer_transform (first_pairs n ns) y = Inr y1 \<and>
            keeps_present y y1 \<and> keeps_present y1 y' \<and> keeps_present y y'"
    by (auto simp: NumAndNumImputer_transform_def)
qed

theorem filled_cells_are_kept_witness:
  "CatAndNumImputer_transform ex_cat ex_D = Inr ex_cat_out \<and>
   NumAndNumImputer_transform ex_num ex_D = Inr ex_num_out \<and>
   (\<exists>x1. CatAndNumImputer_transform (first_pairs 1 ex_cat) ex_D = Inr x1 \<and>
         keeps_present ex_D x1 \<and> keeps_present x1 ex_cat_out \<and> keeps_present ex_D ex_cat_out) \<and>
   (\<exists>y1. NumAndNumImputer_transform (first_pairs 1 ex_num) ex_D = Inr y1 \<and>
         keeps_present ex_D y1 \<and> keeps_present y1 ex_num_out \<and> keeps_present ex_D ex_num_out) \<and>
   (rows ex_cat_out ! 0) ''y'' = Num 15 \<and> (rows ex_num_out ! 0) ''y'' = Num 15"
proof -
  have v: "(rows ex_cat_out ! 0) ''y'' = Num 15" "(rows ex_num_out ! 0) ''y'' = Num 15"
    by code_simp+
  show ?thesis
    using filled_cells_are_kept [of ex_cat ex_D ex_cat_out 1 ex_num ex_D ex_num_out]
      ex_cat_out ex_num_out v by blast
qed

section \<open>Lookup keys that collide\<close>

text \<open>
  C10. The pairs \<^verbatim>\<open>("a_b", "c")\<close> and \<^verbatim>\<open>("a", "b_c")\<close> have the same lookup key
  \<^verbatim>\<open>"a_b_c"\<close>. After \<^verbatim>\<open>fit\<close> the dict holds, under that key, the table of the second
  pair, not the table the first pair computes; \<^verbatim>\<open>transform\<close> then fills column
  \<^verbatim>\<open>c\<close> with the second pair's statistic (100) where the first pair's own table has 5.
  This holds for the categorical-source and for the numeric-source class.
\<close>

theorem lookup_key_collision:
  "ex_clash_pairs = [(''a_b'', ''c''), (''a'', ''b_c'')] \<and>
   lookup_key (''a_b'', ''c'') = lookup_key (''a'', ''b_c'') \<and>
   CatAndNumImputer_fit (pair_imputer_init ex_clash_pairs) ex_clash_F = Inr ex_clash_cat \<and>
   fit_pair median_agg ex_clash_F ex_clash_F (''a_b'', ''c'') = Inr [[Num 1, Num 5], [Num 2, Num 7]] \<and>
   fit_pair median_agg ex_clash_F ex_clash_F (''a'', ''b_c'') = Inr [[Num 1, Num 100], [Num 2, Num 300]] \<and>
   impute_value_dict ex_clash_cat (lookup_key (''a_b'', ''c'')) = Some [[Num 1, Num 100], [Num 2, Num 300]] \<and>
   \<not> isl (CatAndNumImputer_transform ex_clash_cat ex_clash_D) \<and>
   map (\<lambda>r. r ''c'') (rows (fitted (CatAndNumImputer_transform ex_clash_cat ex_clash_D) ex_clash_D)) = [Num 100] \<and>
   NumAndNumImputer_fit (num_imputer_init ex_clash_pairs 2 Uniform) ex_clash_F = Inr ex_clash_num \<and>
   fit_pair median_agg ex_clash_binned ex_clash_F (''a_b'', ''c'') = Inr [[Num 0, Num 5], [Num 1, Num 7]] \<and>
   fit_pair median_agg ex_clash_binned ex_clash_F (''a'', ''b_c'') = Inr [[Num 0, Num 100], [Num 1, Num 300]] \<and>
   impute_value_dict ex_clash_num (lookup_key (''a_b'', ''c'')) = Some [[Num 0, Num 100], [Num 1, Num 300]] \<and>
   \<not> isl (NumAndNumImputer_transform ex_clash_num ex_clash_D) \<and>
   map (\<lambda>r. r ''c'') (rows (fitted (NumAndNumImputer_transform ex_clash_num ex_clash_D) ex_clash_D)) = [Num 100]"
proof -
  have n: "\<not> isl (NumAndNumImputer_fit (num_imputer_init ex_clash_pairs 2 Uniform) ex_clash_F)"
    by code_simp
  have c: "\<not> isl (CatAndNumImputer_fit (pair_imputer_init ex_clash_pairs) ex_clash_F)"
    by code_simp
  have 1: "NumAndNumImputer_fit (num_imputer_init ex_clash_pairs 2 Uniform) ex_clash_F = Inr ex_clash_num"
    unfolding ex_clash_num_def using n by (rule fitted_eq)
  have 2: "CatAndNumImputer_fit (pair_imputer_init ex_clash_pairs) ex_clash_F = Inr ex_clash_cat"
    unfolding ex_clash_cat_def using c by (rule fitted_eq)
  have 3: "lookup_key (''a_b'', ''c'') = lookup_key (''a'', ''b_c'')"
    by (simp add: lookup_key_def)
  have 4: "fit_pair median_agg ex_clash_F ex_clash_F (''a_b'', ''c'') = Inr [[Num 1, Num 5], [Num 2, Num 7]]"
    by code_simp
  have 5: "fit_pair median_agg ex_clash_F ex_clash_F (''a'', ''b_c'') = Inr [[Num 1, Num 100], [Num 2, Num 300]]"
    by code_simp
  have 6: "impute_value_dict ex_clash_cat (lookup_key (''a_b'', ''c'')) = Some [[Num 1, Num 100], [Num 2, Num 300]]"
    by code_simp
  have 7: "\<not> isl (CatAndNumImputer_transform ex_clash_cat ex_clash_D)"
    by code_simp
  have 8: "map (\<lambda>r. r ''c'') (rows (fitted (CatAndNumImputer_transform ex_clash_cat ex_clash_D) ex_clash_D)) = [Num 100]"
    by code_simp
  have 9: "fit_pair median_agg ex_clash_binned ex_clash_F (''a_b'', ''c'') = Inr [[Num 0, Num 5], [Num 1, Num 7]]"
    by code_simp
  have 10: "fit_pair median_agg ex_clash_binned ex_clash_F (''a'', ''b_c'') = Inr [[Num 0, Num 100], [Num 1, Num 300]]"
    by code_simp
  have 11: "impute_value_dict ex_clash_num (lookup_key (''a_b'', ''c'')) = Some [[Num 0, Num 100], [Num 1, Num 300]]"
    by code_simp
  have 12: "\<not> isl (NumAndNumImputer_transform ex_clash_num ex_clash_D)"
    by code_simp
  have 13: "map (\<lambda>r. r ''c'') (rows (fitted (NumAndNumImputer_transform ex_clash_num ex_clash_D) ex_clash_D)) = [Num 100]"
    by code_simp
  show ?thesis
    using 1 2 3 4 5 6 7 8 9 10 11 12 13 by (simp add: ex_clash_pairs_def)
qed

section \<open>Configurations that fit does not accept, and those it does\<close>

lemma list_index_0 [simp]: "list_index (v # vs) 0 = Inr v"
  by (simp add: list_index_def)

lemma list_index_Suc [simp]: "list_index (v # vs) (Suc n) = list_index vs n"
  by (simp add: list_index_def)

lemma fit_column_as_iqr: "fit_column x col (as_iqr strategy) = fit_column x col strategy"
proof (cases strategy)
  case Nil
  then show ?thesis by (simp add: as_iqr_def)
next
  case (Cons tag args)
  then show ?thesis
    by (simp add: as_iqr_def fit_column_def)
qed

lemma fit_columns_as_iqr:
  "fit_columns x (map (\<lambda>p. (fst p, as_iqr (snd p))) sts) tabs = fit_columns x sts tabs"
  by (induction sts arbitrary: tabs) (simp_all add: fit_column_as_iqr)

lemma getcol_absent: "c \<notin> set (columns x) \<Longrightarrow> getcol x c = Inl KeyError"
  by (simp add: getcol_def)

lemma isl_and_then: "isl m \<Longrightarrow> isl (and_then m f)"
  by (cases m) simp_all

lemma isl_and_then_all: "(\<And>v. isl (f v)) \<Longrightarrow> isl (and_then m f)"
  by (cases m) simp_all

lemma fit_strategies_absent:
  "\<exists>p\<in>set ps. fst p \<notin> set (columns x) \<Longrightarrow> isl (fit_strategies x ps iv)"
proof (induction ps arbitrary: iv)
  case Nil
  then show ?case by simp
next
  case (Cons p ps)
  show ?case
  proof (cases "fst p \<in> set (columns x)")
    case True
    with Cons.prems have "\<exists>p\<in>set ps. fst p \<notin> set (columns x)" by auto
    then have "\<And>v. isl (fit_strategies x ps (dict_set (fst p) v iv))"
      by (rule Cons.IH)
    then show ?thesis by (simp add: isl_and_then_all)
  next
    case False
    then show ?thesis by (simp add: impute_value_def getcol_absent)
  qed
qed

lemma fit_pairs_absent:
  "\<exists>p\<in>set ps. fst p \<notin> set (columns bx) \<or> snd p \<notin> set (columns x) \<Longrightarrow>
   isl (fit_pairs agg bx x ps d)"
proof (induction ps arbitrary: d)
  case Nil
  then show ?case by simp
next
  case (Cons p ps)
  show ?case
  proof (cases "fst p \<notin> set (columns bx) \<or> snd p \<notin> set (columns x)")
    case True
    then have "isl (fit_pair agg bx x p)"
      by (cases "fst p \<in> set (columns bx)") (auto simp: fit_pair_def getcol_def)
    then show ?thesis by (simp add: isl_and_then)
  next
    case False
    with Cons.prems have "\<exists>p\<in>set ps. fst p \<notin> set (columns bx) \<or> snd p \<notin> set (columns x)"
      by auto
    then have "\<And>tbl. isl (fit_pairs agg bx x ps (d(lookup_key p \<mapsto> tbl)))"
      by (rule Cons.IH)
    then show ?thesis by (simp add: isl_and_then_all)
  qed
qed

lemma cat_fit_absent:
  assumes "\<exists>p\<in>set (column_pairs self). fst p \<notin> set (columns x) \<or> snd p \<notin> set (columns x)"
  shows "isl (CatAndNumImputer_fit self x)" and "isl (CatAndCatImputer_fit self x)"
  using fit_pairs_absent [OF assms]
  by (simp_all add: CatAndNumImputer_fit_def CatAndCatImputer_fit_def isl_and_then)

lemma binned_frame_columns: "binned_frame srcs kb x = Inr bx \<Longrightarrow> columns bx = srcs"
  by (auto simp: binned_frame_def and_then_eq_Inr split: if_splits)

lemma num_fit_absent:
  assumes "\<exists>p\<in>set (column_pairs self). fst p \<notin> set (columns x) \<or> snd p \<notin> set (columns x)"
  shows "isl (num_fit agg self x)"
proof (cases "set (map fst (column_pairs self)) \<subseteq> set (columns x)")
  case False
  then have "src_frame x (map fst (column_pairs self)) = Inl KeyError"
    by (simp add: src_frame_def)
  then show ?thesis by (simp add: num_fit_def)
next
  case True
  with assms have a: "\<exists>p\<in>set (column_pairs self). snd p \<notin> set (columns x)" by auto
  have "\<And>X kb bx. isl (fit_pairs agg bx x (column_pairs self) (impute_value_dict self))"
    using a by (intro fit_pairs_absent) auto
  then show ?thesis
    unfolding num_fit_def Let_def
    by (intro isl_and_then_all isl_and_then)
qed

text \<open>
  C2, as the code has it. \<^verbatim>\<open>OutlierHandler.fit\<close> has no branch that rejects a method:
  its \<^verbatim>\<open>else\<close> takes every method that is neither \<^verbatim>\<open>'quantile'\<close> nor \<^verbatim>\<open>'values'\<close>, so a
  handler fits exactly as it does with those methods renamed to \<^verbatim>\<open>'iqr'\<close>. A
  configuration of an imputer that names a column the frame lacks makes \<^verbatim>\<open>fit\<close> raise,
  for the scalar-strategy imputer and for the four group-statistic imputers.
\<close>

theorem unknown_method_fits_as_iqr:
  "fitted_tables (OutlierHandler_fit
      (oh\<lparr>oh_strategies := map (\<lambda>p. (fst p, as_iqr (snd p))) (oh_strategies oh)\<rparr>) x) =
   fitted_tables (OutlierHandler_fit oh x) \<and>
   ((\<exists>p\<in>set (strategies mi). fst p \<notin> set (columns x)) \<longrightarrow> isl (MissingImputer_fit mi x)) \<and>
   ((\<exists>p\<in>set (column_pairs ci). fst p \<notin> set (columns x) \<or> snd p \<notin> set (columns x)) \<longrightarrow>
      isl (CatAndNumImputer_fit ci x) \<and> isl (CatAndCatImputer_fit ci x)) \<and>
   ((\<exists>p\<in>set (column_pairs ni). fst p \<notin> set (columns x) \<or> snd p \<notin> set (columns x)) \<longrightarrow>
      isl (NumAndNumImputer_fit ni x) \<and> isl (NumAndCatImputer_fit ni x))"
proof (intro conjI impI)
  show "fitted_tables (OutlierHandler_fit
      (oh\<lparr>oh_strategies := map (\<lambda>p. (fst p, as_iqr (snd p))) (oh_strategies oh)\<rparr>) x) =
   fitted_tables (OutlierHandler_fit oh x)"
    by (cases "fit_columns x (oh_strategies oh) (outlier_bounds oh, fill_values oh)")
      (simp_all add: OutlierHandler_fit_def fit_columns_as_iqr fitted_tables_def)
next
  assume "\<exists>p\<in>set (strategies mi). fst p \<notin> set (columns x)"
  then show "isl (MissingImputer_fit mi x)"
    by (simp add: MissingImputer_fit_def fit_strategies_absent isl_and_then)
next
  assume a: "\<exists>p\<in>set (column_pairs ci). fst p \<notin> set (columns x) \<or> snd p \<notin> set (columns x)"
  show "isl (CatAndNumImputer_fit ci x)" using cat_fit_absent(1) [OF a] .
  show "isl (CatAndCatImputer_fit ci x)" using cat_fit_absent(2) [OF a] .
next
  assume a: "\<exists>p\<in>set (column_pairs ni). fst p \<notin> set (columns x) \<or> snd p \<notin> set (columns x)"
  show "isl (NumAndNumImputer_fit ni x)"
    using num_fit_absent [OF a] by (simp add: NumAndNumImputer_fit_def)
  show "isl (NumAndCatImputer_fit ni x)"
    using num_fit_absent [OF a] by (simp add: NumAndCatImputer_fit_def)
qed

theorem unknown_method_fits_as_iqr_witness:
  "(\<exists>p\<in>set (strategies ex_absent_mi). fst p \<notin> set (columns ex_oh_df)) \<and>
   isl (MissingImputer_fit ex_absent_mi ex_oh_df) \<and>
   (\<exists>p\<in>set (column_pairs ex_absent_ci).
      fst p \<notin> set (columns ex_oh_df) \<or> snd p \<notin> set (columns ex_oh_df)) \<and>
   isl (CatAndNumImputer_fit ex_absent_ci ex_oh_df) \<and>
   isl (CatAndCatImputer_fit ex_absent_ci ex_oh_df) \<and>
   (\<exists>p\<in>set (column_pairs ex_absent_ni).
      fst p \<notin> set (columns ex_oh_df) \<or> snd p \<notin> set (columns ex_oh_df)) \<and>
   isl (NumAndNumImputer_fit ex_absent_ni ex_oh_df) \<and>
   isl (NumAndCatImputer_fit ex_absent_ni ex_oh_df)"
proof -
  have m: "\<exists>p\<in>set (strategies ex_absent_mi). fst p \<notin> set (columns ex_oh_df)"
    by (simp add: ex_absent_mi_def MissingImputer_init_def ex_oh_df_def)
  have c: "\<exists>p\<in>set (column_pairs ex_absent_ci).
      fst p \<notin> set (columns ex_oh_df) \<or> snd p \<notin> set (columns ex_oh_df)"
    by (simp add: ex_absent_ci_def pair_imputer_init_def ex_oh_df_def)
  have n: "\<exists>p\<in>set (column_pairs ex_absent_ni).
      fst p \<notin> set (columns ex_oh_df) \<or> snd p \<notin> set (columns ex_oh_df)"
    by (simp add: ex_absent_ni_def num_imputer_init_def ex_oh_df_def)
  show ?thesis
    using unknown_method_fits_as_iqr [of _ ex_oh_df ex_absent_mi ex_absent_ci ex_absent_ni] m c n
    by blast
qed

text \<open>
  The claim as stated fails: a handler whose only strategy has the method
  \<^verbatim>\<open>'zscore'\<close> fits without an error, with the bounds of the IQR rule. And a column that
  the frame lacks is not found at entry: the loop of \<^verbatim>\<open>fit\<close> takes the columns in order,
  and with the strategies \<^verbatim>\<open>{'b': 'mode', 'd': 'mean'}\<close> on a frame without \<^verbatim>\<open>d\<close> whose
  column \<^verbatim>\<open>b\<close> has no value, the error raised is the IndexError of
  \<^verbatim>\<open>most_common(1)[0]\<close> for \<^verbatim>\<open>b\<close>.
\<close>

theorem unknown_method_counterexample:
  "OutlierHandler_fit (OutlierHandler_init [(''a'', [PVal (Str ''zscore''), PVal (Str ''clip'')])]) ex_oh_df =
   Inr \<lparr>oh_strategies = [(''a'', [PVal (Str ''zscore''), PVal (Str ''clip'')])],
        outlier_bounds = [(''a'', PList [PVal (Num (- 483.125)), PVal (Num 809.875)])],
        fill_values = [(''a'', PVal (Str ''clip''))]\<rparr> \<and>
   columns ex_link_D = [''a'', ''b'', ''c''] \<and>
   map (\<lambda>r. r ''b'') (rows ex_link_D) = [NaN] \<and>
   MissingImputer_fit (MissingImputer_init [(''b'', Str ''mode''), (''d'', Str ''mean'')]) ex_link_D =
     Inl IndexError"
proof -
  have a: "OutlierHandler_fit (OutlierHandler_init
      [(''a'', [PVal (Str ''zscore''), PVal (Str ''clip'')])]) ex_oh_df =
   Inr \<lparr>oh_strategies = [(''a'', [PVal (Str ''zscore''), PVal (Str ''clip'')])],
        outlier_bounds = [(''a'', PList [PVal (Num (- 483.125)), PVal (Num 809.875)])],
        fill_values = [(''a'', PVal (Str ''clip''))]\<rparr>"
    by code_simp
  have b: "columns ex_link_D = [''a'', ''b'', ''c'']" by (simp add: ex_link_D_def)
  have c: "map (\<lambda>r. r ''b'') (rows ex_link_D) = [NaN]" by (simp add: ex_link_D_def)
  have d: "MissingImputer_fit (MissingImputer_init [(''b'', Str ''mode''), (''d'', Str ''mean'')])
      ex_link_D = Inl IndexError"
    by code_simp
  note facts = a b c d
  show ?thesis by (intro conjI; fact facts)
qed

section \<open>The outlier handler, cell by cell\<close>

lemma mask_Inr:
  "mask f cs = Inr m \<longleftrightarrow> length m = length cs \<and> (\<forall>i<length cs. f (cs ! i) = Inr (m ! i))"
proof (induction cs arbitrary: m)
  case Nil
  then show ?case by auto
next
  case (Cons c cs)
  show ?case
  proof (cases m)
    case Nil
    then show ?thesis by (auto simp: and_then_eq_Inr)
  next
    case (Cons b bs)
    then show ?thesis
      by (auto simp: and_then_eq_Inr Cons.IH nth_Cons split: nat.splits)
  qed
qed

lemma set_where_simps [simp]:
  "columns (set_where x col m v) = columns x"
  "length (rows (set_where x col m v)) = min (length m) (length (rows x))"
  by (simp_all add: set_where_def)

lemma nth_set_where:
  "i < length m \<Longrightarrow> i < length (rows x) \<Longrightarrow>
   rows (set_where x col m v) ! i = (if m ! i then (rows x ! i)(col := v) else rows x ! i)"
  by (simp add: set_where_def)

lemma set_below_Inr:
  assumes "set_below col bound v x = Inr x'"
  shows "\<exists>b. bound = PVal b \<and> col \<in> set (columns x) \<and> columns x' = columns x \<and>
     length (rows x') = length (rows x) \<and>
     (\<forall>i<length (rows x). \<exists>bb. cell_lt ((rows x ! i) col) b = Inr bb \<and>
        rows x' ! i = (if bb then (rows x ! i)(col := v) else rows x ! i))"
proof -
  from assms obtain b m where b: "bound = PVal b" and c: "col \<in> set (columns x)"
    and m: "mask (\<lambda>a. cell_lt a b) (map (\<lambda>r. r col) (rows x)) = Inr m"
    and x': "x' = set_where x col m v"
    by (auto simp: set_below_def and_then_eq_Inr getcol_Inr split: pyval.splits)
  from m have len: "length m = length (rows x)"
    and mi: "\<forall>i<length (rows x). cell_lt ((rows x ! i) col) b = Inr (m ! i)"
    by (auto simp: mask_Inr)
  show ?thesis
    using b c x' len mi by (auto simp: nth_set_where)
qed

lemma set_above_Inr:
  assumes "set_above col bound v x = Inr x'"
  shows "\<exists>b. bound = PVal b \<and> col \<in> set (columns x) \<and> columns x' = columns x \<and>
     length (rows x') = length (rows x) \<and>
     (\<forall>i<length (rows x). \<exists>bb. cell_lt b ((rows x ! i) col) = Inr bb \<and>
        rows x' ! i = (if bb then (rows x ! i)(col := v) else rows x ! i))"
proof -
  from assms obtain b m where b: "bound = PVal b" and c: "col \<in> set (columns x)"
    and m: "mask (\<lambda>a. cell_lt b a) (map (\<lambda>r. r col) (rows x)) = Inr m"
    and x': "x' = set_where x col m v"
    by (auto simp: set_above_def and_then_eq_Inr getcol_Inr split: pyval.splits)
  from m have len: "length m = length (rows x)"
    and mi: "\<forall>i<length (rows x). cell_lt b ((rows x ! i) col) = Inr (m ! i)"
    by (auto simp: mask_Inr)
  show ?thesis
    using b c x' len mi by (auto simp: nth_set_where)
qed

lemma scalar_Inr: "scalar v = Inr c \<longleftrightarrow> v = PVal c"
  by (cases v) (simp_all add: scalar_def)

text \<open>One column of the handler, cell by cell.\<close>

lemma transform_column_cells:
  assumes "transform_column self col strategy x = Inr x'"
  shows "\<exists>bounds lo hi fill. dict_get (outlier_bounds self) col = Inr bounds \<and>
     py_index bounds 0 = Inr (PVal lo) \<and> py_index bounds 1 = Inr (PVal hi) \<and>
     dict_get (fill_values self) col = Inr fill \<and>
     col \<in> set (columns x) \<and> columns x' = columns x \<and> length (rows x') = length (rows x) \<and>
     (\<forall>i<length (rows x). \<exists>w. clip_cell fill lo hi ((rows x ! i) col) = Inr w \<and>
        rows x' ! i = (rows x ! i)(col := w))"
proof -
  from assms obtain bounds lower upper fill where
    b: "dict_get (outlier_bounds self) col = Inr bounds"
    and l: "py_index bounds 0 = Inr lower" and u: "py_index bounds 1 = Inr upper"
    and f: "dict_get (fill_values self) col = Inr fill"
    and r: "(if fill = PVal (Str ''na'') then
       and_then (set_below col lower NaN x) (set_above col upper NaN)
     else
       and_then (scalar lower) (\<lambda>lo.
       and_then (set_below col lower lo x) (\<lambda>x1.
       and_then (scalar upper) (\<lambda>hi.
       set_above col upper hi x1)))) = Inr x'"
    unfolding transform_column_def by (auto simp: and_then_eq_Inr)
  define lov where "lov = (\<lambda>lo. if fill = PVal (Str ''na'') then NaN else lo)"
  from r obtain x1 lo hi where lo: "lower = PVal lo" and hi: "upper = PVal hi"
    and s1: "set_below col lower (lov lo) x = Inr x1"
    and s2: "set_above col upper (lov hi) x1 = Inr x'"
  proof (cases "fill = PVal (Str ''na'')")
    case True
    with r obtain x1 where 1: "set_below col lower NaN x = Inr x1"
      and 2: "set_above col upper NaN x1 = Inr x'"
      by (auto simp: and_then_eq_Inr)
    from set_below_Inr [OF 1] set_above_Inr [OF 2] obtain lo hi
      where "lower = PVal lo" "upper = PVal hi" by auto
    with 1 2 True that show ?thesis by (simp add: lov_def)
  next
    case False
    with r obtain lo hi x1 where "lower = PVal lo" "upper = PVal hi"
      "set_below col lower lo x = Inr x1" "set_above col upper hi x1 = Inr x'"
      by (auto simp: and_then_eq_Inr scalar_Inr)
    with False that show ?thesis by (simp add: lov_def)
  qed
  note A = set_below_Inr [OF s1] and B = set_above_Inr [OF s2]
  have cells: "\<forall>i<length (rows x). \<exists>w. clip_cell fill lo hi ((rows x ! i) col) = Inr w \<and>
        rows x' ! i = (rows x ! i)(col := w)"
  proof (intro allI impI)
    fix i assume i: "i < length (rows x)"
    let ?v = "(rows x ! i) col"
    from A i lo obtain b1 where b1: "cell_lt ?v lo = Inr b1"
      and r1: "rows x1 ! i = (if b1 then (rows x ! i)(col := lov lo) else rows x ! i)"
      by auto
    let ?v1 = "if b1 then lov lo else ?v"
    have v1: "(rows x1 ! i) col = ?v1" using r1 by simp
    from A B i hi obtain b2 where b2: "cell_lt hi ((rows x1 ! i) col) = Inr b2"
      and r2: "rows x' ! i = (if b2 then (rows x1 ! i)(col := lov hi) else rows x1 ! i)"
      by auto
    have "clip_cell fill lo hi ?v = Inr (if b2 then lov hi else ?v1)"
      using b1 b2 v1 by (cases b1) (auto simp: clip_cell_def lov_def Let_def)
    moreover have "rows x' ! i = (rows x ! i)(col := if b2 then lov hi else ?v1)"
      using r1 r2 by auto
    ultimately show "\<exists>w. clip_cell fill lo hi ?v = Inr w \<and> rows x' ! i = (rows x ! i)(col := w)"
      by blast
  qed
  show ?thesis
    using b l u f lo hi A B cells by auto
qed

lemma clip_cell_cases:
  assumes "clip_cell fill lo hi v = Inr w"
  shows "(fill = PVal (Str ''na'') \<and> (cell_lt v lo = Inr True \<or> cell_lt hi v = Inr True) \<longrightarrow> w = NaN) \<and>
    (fill \<noteq> PVal (Str ''na'') \<and> cell_lt hi lo = Inr False \<and> cell_lt v lo = Inr True \<longrightarrow> w = lo) \<and>
    (fill \<noteq> PVal (Str ''na'') \<and> cell_lt hi lo = Inr False \<and> cell_lt hi v = Inr True \<longrightarrow> w = hi) \<and>
    (cell_lt v lo = Inr False \<and> cell_lt hi v = Inr False \<longrightarrow> w = v)"
  using assms
  by (cases v; cases lo; cases hi) (auto simp: clip_cell_def and_then_eq_Inr split: if_splits)

lemma transform_columns_frame:
  "transform_columns self sts x = Inr x' \<Longrightarrow>
   columns x' = columns x \<and> length (rows x') = length (rows x) \<and>
   (\<forall>i<length (rows x). \<forall>c. c \<notin> fst ` set sts \<longrightarrow> (rows x' ! i) c = (rows x ! i) c)"
proof (induction sts arbitrary: x)
  case Nil
  then show ?case by simp
next
  case (Cons p sts)
  from Cons.prems obtain x1 where 1: "transform_column self (fst p) (snd p) x = Inr x1"
    and 2: "transform_columns self sts x1 = Inr x'"
    by (auto simp: and_then_eq_Inr)
  from transform_column_cells [OF 1] have c1: "columns x1 = columns x"
    and l1: "length (rows x1) = length (rows x)"
    and r1: "\<forall>i<length (rows x). \<forall>c. c \<noteq> fst p \<longrightarrow> (rows x1 ! i) c = (rows x ! i) c"
    by auto
  from Cons.IH [OF 2] c1 l1 r1 show ?case by auto
qed

lemma transform_columns_column:
  "transform_columns self sts x = Inr x' \<Longrightarrow> distinct (map fst sts) \<Longrightarrow> (col, st) \<in> set sts \<Longrightarrow>
   \<exists>x1 x2. transform_column self col st x1 = Inr x2 \<and> length (rows x1) = length (rows x) \<and>
     (\<forall>i<length (rows x). (rows x1 ! i) col = (rows x ! i) col \<and> (rows x' ! i) col = (rows x2 ! i) col)"
proof (induction sts arbitrary: x)
  case Nil
  then show ?case by simp
next
  case (Cons p sts)
  from Cons.prems(1) obtain y where 1: "transform_column self (fst p) (snd p) x = Inr y"
    and 2: "transform_columns self sts y = Inr x'"
    by (auto simp: and_then_eq_Inr)
  from transform_column_cells [OF 1] have ly: "length (rows y) = length (rows x)"
    and ry: "\<forall>i<length (rows x). \<forall>c. c \<noteq> fst p \<longrightarrow> (rows y ! i) c = (rows x ! i) c"
    by auto
  show ?case
  proof (cases "p = (col, st)")
    case True
    with Cons.prems(2) have "col \<notin> fst ` set sts" by auto
    with transform_columns_frame [OF 2] ly
    have "\<forall>i<length (rows x). (rows x' ! i) col = (rows y ! i) col" by auto
    with 1 True show ?thesis by (intro exI [of _ x] exI [of _ y]) auto
  next
    case False
    with Cons.prems have in_sts: "(col, st) \<in> set sts" and d: "distinct (map fst sts)"
      and ne: "col \<noteq> fst p"
      by (auto simp: image_iff)
    from Cons.IH [OF 2 d in_sts] obtain x1 x2 where
      t: "transform_column self col st x1 = Inr x2" and l: "length (rows x1) = length (rows y)"
      and r: "\<forall>i<length (rows y). (rows x1 ! i) col = (rows y ! i) col \<and> (rows x' ! i) col = (rows x2 ! i) col"
      by blast
    show ?thesis
      using t l r ly ry ne by (intro exI [of _ x1] exI [of _ x2]) auto
  qed
qed

lemma ex_oh_out: "OutlierHandler_transform ex_oh ex_oh_df = Inr ex_oh_out"
proof -
  have "\<not> isl (OutlierHandler_transform ex_oh ex_oh_df)" by code_simp
  then show ?thesis unfolding ex_oh_out_def by (rule fitted_eq)
qed

text \<open>
  C7, as the code has it. For a handler with one strategy per column (the strategies are
  a dict) and a column it is configured for, with the fitted bounds \<^verbatim>\<open>lo\<close> and \<^verbatim>\<open>hi\<close>: with
  the fill value \<^verbatim>\<open>'na'\<close>, a value strictly below \<^verbatim>\<open>lo\<close> or strictly above \<^verbatim>\<open>hi\<close> becomes
  missing; with any other fill value (\<^verbatim>\<open>'clip'\<close>) and bounds that are not inverted
  (\<^verbatim>\<open>hi < lo\<close> is false), a value strictly below \<^verbatim>\<open>lo\<close> becomes \<^verbatim>\<open>lo\<close> and a value strictly
  above \<^verbatim>\<open>hi\<close> becomes \<^verbatim>\<open>hi\<close>; a value within the bounds is unchanged.
\<close>

theorem outliers_are_replaced:
  assumes "OutlierHandler_transform self x = Inr x'"
    and "distinct (map fst (oh_strategies self))"
    and "col \<in> fst ` set (oh_strategies self)"
    and "i < length (rows x)"
  shows "\<exists>bounds lo hi fill.
     dict_get (outlier_bounds self) col = Inr bounds \<and>
     py_index bounds 0 = Inr (PVal lo) \<and> py_index bounds 1 = Inr (PVal hi) \<and>
     dict_get (fill_values self) col = Inr fill \<and>
     (fill = PVal (Str ''na'') \<and>
        (cell_lt ((rows x ! i) col) lo = Inr True \<or> cell_lt hi ((rows x ! i) col) = Inr True) \<longrightarrow>
        (rows x' ! i) col = NaN) \<and>
     (fill \<noteq> PVal (Str ''na'') \<and> cell_lt hi lo = Inr False \<and>
        cell_lt ((rows x ! i) col) lo = Inr True \<longrightarrow> (rows x' ! i) col = lo) \<and>
     (fill \<noteq> PVal (Str ''na'') \<and> cell_lt hi lo = Inr False \<and>
        cell_lt hi ((rows x ! i) col) = Inr True \<longrightarrow> (rows x' ! i) col = hi) \<and>
     (cell_lt ((rows x ! i) col) lo = Inr False \<and> cell_lt hi ((rows x ! i) col) = Inr False \<longrightarrow>
        (rows x' ! i) col = (rows x ! i) col)"
proof -
  from assms(3) obtain st where st: "(col, st) \<in> set (oh_strategies self)" by auto
  from assms(1) have t: "transform_columns self (oh_strategies self) x = Inr x'"
    by (simp add: OutlierHandler_transform_def)
  from transform_columns_column [OF t assms(2) st] obtain x1 x2 where
    c: "transform_column self col st x1 = Inr x2" and l: "length (rows x1) = length (rows x)"
    and r: "(rows x1 ! i) col = (rows x ! i) col" "(rows x' ! i) col = (rows x2 ! i) col"
    using assms(4) by blast
  from transform_column_cells [OF c] l assms(4) obtain bounds lo hi fill w where
    b: "dict_get (outlier_bounds self) col = Inr bounds"
    "py_index bounds 0 = Inr (PVal lo)" "py_index bounds 1 = Inr (PVal hi)"
    "dict_get (fill_values self) col = Inr fill"
    and w: "clip_cell fill lo hi ((rows x1 ! i) col) = Inr w"
    and x2: "rows x2 ! i = (rows x1 ! i)(col := w)"
    by (metis (no_types, lifting))
  have w': "(rows x' ! i) col = w" using r x2 by simp
  from clip_cell_cases [OF w] show ?thesis
    unfolding r(1) w' using b by blast
qed

text \<open>
  The example of the notebook: quantile bounds [0.2, 0.8] with \<^verbatim>\<open>'na'\<close> on
  \<^verbatim>\<open>a = [1, 2, 100, 1000]\<close> give the bounds 1.6 and 460 and make exactly 1 and 1000 missing.
\<close>

theorem outliers_are_replaced_witness:
  "OutlierHandler_transform ex_oh ex_oh_df = Inr ex_oh_out \<and>
   distinct (map fst (oh_strategies ex_oh)) \<and>
   ''a'' \<in> fst ` set (oh_strategies ex_oh) \<and>
   0 < length (rows ex_oh_df) \<and>
   (\<exists>bounds lo hi fill.
     dict_get (outlier_bounds ex_oh) ''a'' = Inr bounds \<and>
     py_index bounds 0 = Inr (PVal lo) \<and> py_index bounds 1 = Inr (PVal hi) \<and>
     dict_get (fill_values ex_oh) ''a'' = Inr fill \<and>
     (fill = PVal (Str ''na'') \<and>
        (cell_lt ((rows ex_oh_df ! 0) ''a'') lo = Inr True \<or> cell_lt hi ((rows ex_oh_df ! 0) ''a'') = Inr True) \<longrightarrow>
        (rows ex_oh_out ! 0) ''a'' = NaN)) \<and>
   outlier_bounds ex_oh = [(''a'', PList [PVal (Num 1.6), PVal (Num 460)]),
      (''b'', PList [PVal (Num 0), PVal (Num 200)]),
      (''c'', PList [PVal (Num (- 248.875)), PVal (Num 436.125)])] \<and>
   map (\<lambda>r. map r [''a'', ''b'', ''c'']) (rows ex_oh_out) =
     [[NaN, Num 0, Num 436.125], [Num 2, Num 45, Num 10], [Num 100, Num 200, Num 59],
      [NaN, Num 200, Num 2]]"
proof -
  have d: "distinct (map fst (oh_strategies ex_oh))" by code_simp
  have a: "''a'' \<in> fst ` set (oh_strategies ex_oh)" by code_simp
  have n: "0 < length (rows ex_oh_df)" by code_simp
  have b: "outlier_bounds ex_oh = [(''a'', PList [PVal (Num 1.6), PVal (Num 460)]),
      (''b'', PList [PVal (Num 0), PVal (Num 200)]),
      (''c'', PList [PVal (Num (- 248.875)), PVal (Num 436.125)])]" by code_simp
  have v: "map (\<lambda>r. map r [''a'', ''b'', ''c'']) (rows ex_oh_out) =
     [[NaN, Num 0, Num 436.125], [Num 2, Num 45, Num 10], [Num 100, Num 200, Num 59],
      [NaN, Num 200, Num 2]]" by code_simp
  from outliers_are_replaced [OF ex_oh_out d a n] obtain bounds lo hi fill where
    "dict_get (outlier_bounds ex_oh) ''a'' = Inr bounds \<and>
     py_index bounds 0 = Inr (PVal lo) \<and> py_index bounds 1 = Inr (PVal hi) \<and>
     dict_get (fill_values ex_oh) ''a'' = Inr fill \<and>
     (fill = PVal (Str ''na'') \<and>
        (cell_lt ((rows ex_oh_df ! 0) ''a'') lo = Inr True \<or> cell_lt hi ((rows ex_oh_df ! 0) ''a'') = Inr True) \<longrightarrow>
        (rows ex_oh_out ! 0) ''a'' = NaN)"
    by blast
  then show ?thesis
    using ex_oh_out d a n b v by blast
qed

text \<open>
  The claim as stated fails for inverted bounds: with \<^verbatim>\<open>['values', [200, 0], 'clip']\<close> the
  value -100 is strictly below the lower bound 200 and not above the upper bound 0,
  and it is replaced by the upper bound: the second assignment sees the 200 the first
  one wrote.
\<close>

theorem outliers_inverted_bounds_counterexample:
  "OutlierHandler_fit (OutlierHandler_init
     [(''b'', [PVal (Str ''values''), PList [PVal (Num 200), PVal (Num 0)], PVal (Str ''clip'')])])
     ex_oh_df = Inr ex_inverted \<and>
   outlier_bounds ex_inverted = [(''b'', PList [PVal (Num 200), PVal (Num 0)])] \<and>
   fill_values ex_inverted = [(''b'', PVal (Str ''clip''))] \<and>
   (rows ex_oh_df ! 0) ''b'' = Num (- 100) \<and>
   cell_lt (Num (- 100)) (Num 200) = Inr True \<and>
   cell_lt (Num 0) (Num (- 100)) = Inr False \<and>
   \<not> isl (OutlierHandler_transform ex_inverted ex_oh_df) \<and>
   (rows (fitted (OutlierHandler_transform ex_inverted ex_oh_df) ex_oh_df) ! 0) ''b'' = Num 0 \<and>
   (rows (fitted (OutlierHandler_transform ex_inverted ex_oh_df) ex_oh_df) ! 0) ''b'' \<noteq> Num 200"
proof -
  have "\<not> isl (OutlierHandler_fit (OutlierHandler_init
     [(''b'', [PVal (Str ''values''), PList [PVal (Num 200), PVal (Num 0)], PVal (Str ''clip'')])])
     ex_oh_df)" by code_simp
  then have 1: "OutlierHandler_fit (OutlierHandler_init
     [(''b'', [PVal (Str ''values''), PList [PVal (Num 200), PVal (Num 0)], PVal (Str ''clip'')])])
     ex_oh_df = Inr ex_inverted"
    unfolding ex_inverted_def by (rule fitted_eq)
  have 2: "outlier_bounds ex_inverted = [(''b'', PList [PVal (Num 200), PVal (Num 0)])]"
    by code_simp
  have 3: "fill_values ex_inverted = [(''b'', PVal (Str ''clip''))]" by code_simp
  have 4: "(rows ex_oh_df ! 0) ''b'' = Num (- 100)" by code_simp
  have 5: "\<not> isl (OutlierHandler_transform ex_inverted ex_oh_df)" by code_simp
  have 6: "(rows (fitted (OutlierHandler_transform ex_inverted ex_oh_df) ex_oh_df) ! 0) ''b'' = Num 0"
    by code_simp
  show ?thesis using 1 2 3 4 5 6 by simp
qed

section \<open>The mode of a group\<close>

lemma first_seen_Nil [simp]: "first_seen [] = []"
  by (simp add: first_seen_def)


lemma set_first_seen [simp]: "set (first_seen vs) = set vs"
  by (simp add: first_seen_def)

lemma distinct_first_seen [simp]: "distinct (first_seen vs)"
  by (simp add: first_seen_def)














section \<open>The tables that fit stores\<close>

lemma set_insort_cell [simp]: "set (insort_cell k cs) = insert k (set cs)"
  by (induction cs) auto

lemma set_sort_cells [simp]: "set (sort_cells ks) = set ks"
  by (induction ks) (simp_all add: sort_cells_def)

lemma agg_groups_row:
  "agg_groups agg df ks = Inr tbl \<Longrightarrow> cat \<in> set tbl \<Longrightarrow>
   \<exists>k m. cat = [k, m] \<and> k \<in> set ks \<and> agg (group_values df k) = Inr m"
proof (induction ks arbitrary: tbl)
  case Nil
  then show ?case by simp
next
  case (Cons k ks)
  from Cons.prems(1) obtain m rest where m: "agg (group_values df k) = Inr m"
    and rest: "agg_groups agg df ks = Inr rest" and tbl: "tbl = [k, m] # rest"
    by (auto simp: and_then_eq_Inr)
  from Cons.prems(2) tbl consider "cat = [k, m]" | "cat \<in> set rest" by auto
  then show ?case
  proof cases
    case 1
    with m show ?thesis by auto
  next
    case 2
    from Cons.IH [OF rest 2] show ?thesis by auto
  qed
qed

lemma agg_groups_key:
  "agg_groups agg df ks = Inr tbl \<Longrightarrow> k \<in> set ks \<Longrightarrow>
   \<exists>m. [k, m] \<in> set tbl \<and> agg (group_values df k) = Inr m"
proof (induction ks arbitrary: tbl)
  case Nil
  then show ?case by simp
next
  case (Cons k' ks)
  from Cons.prems(1) obtain m rest where m: "agg (group_values df k') = Inr m"
    and rest: "agg_groups agg df ks = Inr rest" and tbl: "tbl = [k', m] # rest"
    by (auto simp: and_then_eq_Inr)
  show ?case
  proof (cases "k = k'")
    case True
    with m tbl show ?thesis by auto
  next
    case False
    with Cons.prems(2) have "k \<in> set ks" by simp
    from Cons.IH [OF rest this] tbl show ?thesis by auto
  qed
qed

lemma group_values_rows:
  "k \<noteq> NaN \<Longrightarrow>
   group_values (dropna2 (zip (map key rs) (map (\<lambda>r. r t) rs))) k =
   map (\<lambda>r. r t) (filter (\<lambda>r. key r = k \<and> r t \<noteq> NaN) rs)"
  by (induction rs) (auto simp: group_values_def dropna2_def)

lemma keys_rows:
  "k \<in> set (map fst (dropna2 (zip (map key rs) (map (\<lambda>r. r t) rs)))) \<longleftrightarrow>
   k \<noteq> NaN \<and> (\<exists>r\<in>set rs. key r = k \<and> r t \<noteq> NaN)"
  by (induction rs) (auto simp: dropna2_def)

text \<open>The lists of the table of one pair, for a source column that is not the destination.\<close>

lemma pair_table_row:
  assumes "pair_table agg s t (map key (rows x)) (map (\<lambda>r. r t) (rows x)) = Inr tbl"
    and "s \<noteq> t" and "cat \<in> set tbl"
  shows "\<exists>k m. cat = [k, m] \<and> k \<noteq> NaN \<and> group_of key t x k \<noteq> [] \<and>
     agg (group_of key t x k) = Inr m"
proof -
  let ?df = "dropna2 (zip (map key (rows x)) (map (\<lambda>r. r t) (rows x)))"
  from assms(1,2) have "agg_groups agg ?df (sort_cells (remdups (map fst ?df))) = Inr tbl"
    by (simp add: pair_table_def groupby_agg_def)
  from agg_groups_row [OF this assms(3)] obtain k m where c: "cat = [k, m]"
    and k: "k \<in> set (map fst ?df)" and m: "agg (group_values ?df k) = Inr m"
    by auto
  from k have kn: "k \<noteq> NaN" and ex: "\<exists>r\<in>set (rows x). key r = k \<and> r t \<noteq> NaN"
    unfolding keys_rows by auto
  have g: "group_values ?df k = group_of key t x k"
    using kn by (simp add: group_values_rows group_of_def)
  have "group_of key t x k \<noteq> []"
    using ex by (auto simp: group_of_def filter_empty_conv)
  with c kn m g show ?thesis by auto
qed

lemma pair_table_key:
  assumes "pair_table agg s t (map key (rows x)) (map (\<lambda>r. r t) (rows x)) = Inr tbl"
    and "s \<noteq> t" and "k \<noteq> NaN" and "group_of key t x k \<noteq> []"
  shows "\<exists>m. [k, m] \<in> set tbl \<and> agg (group_of key t x k) = Inr m"
proof -
  let ?df = "dropna2 (zip (map key (rows x)) (map (\<lambda>r. r t) (rows x)))"
  from assms(1,2) have a: "agg_groups agg ?df (sort_cells (remdups (map fst ?df))) = Inr tbl"
    by (simp add: pair_table_def groupby_agg_def)
  from assms(4) have "\<exists>r\<in>set (rows x). key r = k \<and> r t \<noteq> NaN"
    by (auto simp: group_of_def filter_empty_conv)
  with assms(3) have "k \<in> set (map fst ?df)"
    unfolding keys_rows by simp
  then have "k \<in> set (sort_cells (remdups (map fst ?df)))" by simp
  from agg_groups_key [OF a this] obtain m where "[k, m] \<in> set tbl"
    "agg (group_values ?df k) = Inr m" by auto
  moreover have "group_values ?df k = group_of key t x k"
    using assms(3) by (simp add: group_values_rows group_of_def)
  ultimately show ?thesis by auto
qed

text \<open>
  The table of a pair whose two columns are the same has a one-element list for every
  value the column has.
\<close>

lemma in_set_nonempty: "x \<in> set xs \<Longrightarrow> xs \<noteq> []"
  by auto

lemma pair_table_self:
  assumes "pair_table agg s s ks vs = Inr tbl" and "v \<in> set vs" and "v \<noteq> NaN"
  shows "[v] \<in> set tbl"
proof -
  let ?g = "sort_cells (remdups (filter (\<lambda>v. v \<noteq> NaN) vs))"
  have v: "v \<in> set ?g" using assms(2,3) by simp
  have "?g \<noteq> []" by (rule in_set_nonempty [OF v])
  with assms(1) have "tbl = map (\<lambda>k. [k]) ?g"
    by (auto simp: pair_table_def Let_def split: sum.splits if_splits)
  with v show ?thesis by auto
qed

text \<open>What \<^verbatim>\<open>fit\<close> leaves in the dict.\<close>

lemma fit_pairs_other:
  "fit_pairs agg bx x ps d = Inr d' \<Longrightarrow> k \<notin> lookup_key ` set ps \<Longrightarrow> d' k = d k"
proof (induction ps arbitrary: d)
  case Nil
  then show ?case by simp
next
  case (Cons p ps)
  from Cons.prems(1) obtain tbl where
    "fit_pairs agg bx x ps (d(lookup_key p \<mapsto> tbl)) = Inr d'"
    by (auto simp: and_then_eq_Inr)
  from Cons.IH [OF this] Cons.prems(2) show ?case by auto
qed

lemma fit_pairs_lookup:
  "fit_pairs agg bx x ps d = Inr d' \<Longrightarrow> p \<in> set ps \<Longrightarrow>
   \<exists>q\<in>set ps. lookup_key q = lookup_key p \<and>
      (\<exists>tbl. fit_pair agg bx x q = Inr tbl \<and> d' (lookup_key p) = Some tbl)"
proof (induction ps arbitrary: d p)
  case Nil
  then show ?case by simp
next
  case (Cons p' ps)
  from Cons.prems(1) obtain tbl where t: "fit_pair agg bx x p' = Inr tbl"
    and r: "fit_pairs agg bx x ps (d(lookup_key p' \<mapsto> tbl)) = Inr d'"
    by (auto simp: and_then_eq_Inr)
  show ?case
  proof (cases "lookup_key p \<in> lookup_key ` set ps")
    case True
    then obtain p2 where p2: "p2 \<in> set ps" "lookup_key p2 = lookup_key p" by auto
    from Cons.IH [OF r p2(1)] p2(2) show ?thesis by auto
  next
    case False
    with Cons.prems(2) have pp: "p = p'" by auto
    from fit_pairs_other [OF r False] have "d' (lookup_key p) = Some tbl"
      using pp by simp
    with t pp show ?thesis by auto
  qed
qed


text \<open>The dict keeps, under a lookup key, the table of the last pair that has the key.\<close>

lemma fit_pairs_lookup_last:
  "fit_pairs agg bx x (pre @ p # post) d = Inr d' \<Longrightarrow>
   \<forall>q\<in>set post. lookup_key q = lookup_key p \<longrightarrow> q = p \<Longrightarrow>
   \<exists>tbl. fit_pair agg bx x p = Inr tbl \<and> d' (lookup_key p) = Some tbl"
proof (induction pre arbitrary: d)
  case Nil
  from Nil.prems(1) obtain tbl where t: "fit_pair agg bx x p = Inr tbl"
    and r: "fit_pairs agg bx x post (d(lookup_key p \<mapsto> tbl)) = Inr d'"
    by (auto simp: and_then_eq_Inr)
  show ?case
  proof (cases "lookup_key p \<in> lookup_key ` set post")
    case True
    with Nil.prems(2) have "p \<in> set post" by auto
    from fit_pairs_lookup [OF r this] Nil.prems(2) show ?thesis by auto
  next
    case False
    from fit_pairs_other [OF r False] t show ?thesis by simp
  qed
next
  case (Cons q pre)
  from Cons.prems(1) obtain tbl where
    "fit_pairs agg bx x (pre @ p # post) (d(lookup_key q \<mapsto> tbl)) = Inr d'"
    by (auto simp: and_then_eq_Inr)
  from Cons.IH [OF this Cons.prems(2)] show ?case .
qed

lemma fit_pair_rows:
  assumes "fit_pair agg bx x p = Inr tbl" and "rows bx = map kr (rows x)"
  shows "pair_table agg (fst p) (snd p) (map (\<lambda>r. kr r (fst p)) (rows x))
     (map (\<lambda>r. r (snd p)) (rows x)) = Inr tbl \<and>
     fst p \<in> set (columns bx) \<and> snd p \<in> set (columns x)"
  using assms by (auto simp: fit_pair_def and_then_eq_Inr getcol_Inr comp_def)






section \<open>What transform does to one cell\<close>

lemma key_nth:
  "getcol (case kf of None \<Rightarrow> x | Some bx \<Rightarrow> bx) s = Inr ks \<Longrightarrow> aligned kf x \<Longrightarrow>
   i < length (rows x) \<Longrightarrow> ks ! i = key_of kf x i s"
  by (auto simp: getcol_Inr key_of_def aligned_def split: option.splits)

lemma key_of_same_row:
  "rows x2 ! i = rows x ! i \<Longrightarrow> key_of kf x2 i s = key_of kf x i s"
  by (simp add: key_of_def split: option.splits)

lemma apply_table_no_match:
  "apply_table kf s t tbl x = Inr x' \<Longrightarrow> aligned kf x \<Longrightarrow> i < length (rows x) \<Longrightarrow>
   \<forall>cat\<in>set tbl. \<not> cell_eq (key_of kf x i s) (hd cat) \<Longrightarrow> rows x' ! i = rows x ! i"
proof (induction tbl arbitrary: x)
  case Nil
  then show ?case by simp
next
  case (Cons cat cats)
  from Cons.prems(1) obtain sv dv rest ks where cat: "cat = sv # dv # rest"
    and ks: "getcol (case kf of None \<Rightarrow> x | Some bx \<Rightarrow> bx) s = Inr ks"
    and rec: "apply_table kf s t cats (assign ks sv t dv x) = Inr x'"
    by (auto simp: and_then_eq_Inr split: list.splits)
  have len: "length ks = length (rows x)"
    using key_length [OF Cons.prems(2) ks] .
  let ?x2 = "assign ks sv t dv x"
  have al2: "aligned kf ?x2"
    using aligned_assign [OF Cons.prems(2) len] .
  have "\<not> cell_eq (ks ! i) sv"
    using Cons.prems(4) cat key_nth [OF ks Cons.prems(2,3)] by simp
  then have row: "rows ?x2 ! i = rows x ! i"
    using Cons.prems(3) len by (simp add: nth_assign fill_row_def)
  have i2: "i < length (rows ?x2)" using Cons.prems(3) len by simp
  have "\<forall>cat\<in>set cats. \<not> cell_eq (key_of kf ?x2 i s) (hd cat)"
    using Cons.prems(4) key_of_same_row [OF row] by simp
  from Cons.IH [OF rec al2 i2 this] row show ?case by simp
qed

lemma cell_eq_NaN [simp]: "\<not> cell_eq NaN k"
  by (simp add: cell_eq_def)

lemma key_of_final:
  assumes "impute_pairs kf d ps x = Inr x'" and "aligned kf x" and "i < length (rows x)"
    and "key_of kf x i s \<noteq> NaN"
  shows "key_of kf x' i s = key_of kf x i s"
proof (cases kf)
  case None
  with impute_pairs_keeps [OF assms(1,2)] assms(3,4) show ?thesis
    by (auto simp: key_of_def)
next
  case (Some bx)
  then show ?thesis by (simp add: key_of_def)
qed

lemma impute_pairs_no_match:
  "impute_pairs kf d ps x = Inr x' \<Longrightarrow> aligned kf x \<Longrightarrow> i < length (rows x) \<Longrightarrow>
   \<forall>p\<in>set ps. snd p = t \<longrightarrow> no_entry d p (key_of kf x' i (fst p)) \<Longrightarrow>
   (rows x' ! i) t = (rows x ! i) t"
proof (induction ps arbitrary: x)
  case Nil
  then show ?case by simp
next
  case (Cons p ps)
  from Cons.prems(1) obtain tbl x1 where
    tbl: "d (lookup_key p) = Some tbl"
    and x1: "apply_table kf (fst p) (snd p) tbl x = Inr x1"
    and rec: "impute_pairs kf d ps x1 = Inr x'"
    by (auto simp: and_then_eq_Inr split: option.splits)
  note a = apply_table_keeps [OF x1 Cons.prems(2)]
  have al1: "aligned kf x1"
    using aligned_same_length [OF Cons.prems(2)] a by simp
  have i1: "i < length (rows x1)" using a Cons.prems(3) by simp
  have "(rows x' ! i) t = (rows x1 ! i) t"
    using Cons.IH [OF rec al1 i1] Cons.prems(4) by simp
  moreover have "(rows x1 ! i) t = (rows x ! i) t"
  proof (cases "snd p = t")
    case False
    with a Cons.prems(3) show ?thesis by auto
  next
    case True
    have "\<forall>cat\<in>set tbl. \<not> cell_eq (key_of kf x i (fst p)) (hd cat)"
    proof (cases "key_of kf x i (fst p) = NaN")
      case True
      then show ?thesis by simp
    next
      case False
      from key_of_final [OF Cons.prems(1,2,3) False]
      have "key_of kf x' i (fst p) = key_of kf x i (fst p)" .
      moreover have "no_entry d p (key_of kf x' i (fst p))"
        using Cons.prems(4) True by simp
      ultimately show ?thesis using tbl by (simp add: no_entry_def)
    qed
    from apply_table_no_match [OF x1 Cons.prems(2,3) this] show ?thesis by simp
  qed
  ultimately show ?case by simp
qed


lemma apply_table_columns:
  "apply_table kf s t tbl x = Inr x' \<Longrightarrow> columns x' = columns x"
  by (induction tbl arbitrary: x) (auto simp: and_then_eq_Inr split: list.splits)

lemma apply_table_shape:
  "apply_table kf s t tbl x = Inr x' \<Longrightarrow>
   (\<forall>cat\<in>set tbl. 2 \<le> length cat) \<and>
   (tbl \<noteq> [] \<longrightarrow> s \<in> set (columns (case kf of None \<Rightarrow> x | Some bx \<Rightarrow> bx)) \<and> t \<in> set (columns x))"
proof (induction tbl arbitrary: x)
  case Nil
  then show ?case by simp
next
  case (Cons cat cats)
  from Cons.prems obtain sv dv rest ks vs where cat: "cat = sv # dv # rest"
    and ks: "getcol (case kf of None \<Rightarrow> x | Some bx \<Rightarrow> bx) s = Inr ks"
    and vs: "getcol x t = Inr vs"
    and rec: "apply_table kf s t cats (assign ks sv t dv x) = Inr x'"
    by (auto simp: and_then_eq_Inr split: list.splits)
  from Cons.IH [OF rec] have "\<forall>c\<in>set cats. 2 \<le> length c" by simp
  with cat ks vs show ?case by (simp add: getcol_Inr)
qed



lemma apply_table_fills:
  "apply_table kf s t tbl x = Inr x' \<Longrightarrow> aligned kf x \<Longrightarrow> i < length (rows x) \<Longrightarrow>
   kf \<noteq> None \<or> s \<noteq> t \<Longrightarrow> key_of kf x i s = k \<Longrightarrow> k \<noteq> NaN \<Longrightarrow>
   (rows x ! i) t = NaN \<Longrightarrow> [k, m] \<in> set tbl \<Longrightarrow>
   \<forall>cat\<in>set tbl. hd cat = k \<longrightarrow> cat ! 1 = m \<Longrightarrow> m \<noteq> NaN \<Longrightarrow>
   (rows x' ! i) t = m"
proof (induction tbl arbitrary: x)
  case Nil
  then show ?case by simp
next
  case (Cons cat cats)
  from Cons.prems(1) obtain sv dv rest ks where cat: "cat = sv # dv # rest"
    and ks: "getcol (case kf of None \<Rightarrow> x | Some bx \<Rightarrow> bx) s = Inr ks"
    and rec: "apply_table kf s t cats (assign ks sv t dv x) = Inr x'"
    by (auto simp: and_then_eq_Inr split: list.splits)
  have len: "length ks = length (rows x)"
    using key_length [OF Cons.prems(2) ks] .
  let ?x2 = "assign ks sv t dv x"
  have al2: "aligned kf ?x2"
    using aligned_assign [OF Cons.prems(2) len] .
  have i2: "i < length (rows ?x2)" using Cons.prems(3) len by simp
  have ki: "ks ! i = k"
    using key_nth [OF ks Cons.prems(2,3)] Cons.prems(5) by simp
  have row: "rows ?x2 ! i = fill_row k sv t dv (rows x ! i)"
    using Cons.prems(3) len ki by (simp add: nth_assign)
  show ?case
  proof (cases "sv = k")
    case True
    then have "dv = m" using Cons.prems(9) cat by simp
    with True row Cons.prems(6,7) have "(rows ?x2 ! i) t = m"
      by (simp add: fill_row_def cell_eq_def)
    with apply_table_keeps [OF rec al2] i2 Cons.prems(10) show ?thesis
      by auto
  next
    case False
    then have same: "rows ?x2 ! i = rows x ! i"
      using row by (simp add: fill_row_def cell_eq_def)
    have k2: "key_of kf ?x2 i s = k"
      using key_of_same_row [OF same] Cons.prems(5) by simp
    have "[k, m] \<in> set cats" using Cons.prems(8) False cat by auto
    from Cons.IH [OF rec al2 i2 Cons.prems(4) k2 Cons.prems(6) _ this _ Cons.prems(10)]
      same Cons.prems(7,9) show ?thesis by simp
  qed
qed

text \<open>The states of the numeric-source classes.\<close>

lemma binned_frame_Inr:
  "binned_frame srcs kb x = Inr bx \<Longrightarrow>
   columns bx = srcs \<and> rows bx = map (bin_row srcs kb) (rows x) \<and> set srcs \<subseteq> set (columns x) \<and>
   (\<forall>s\<in>set srcs. \<forall>r\<in>set (rows x). is_Num (fillna0 (r s)))"
  by (auto simp: binned_frame_def and_then_eq_Inr src_frame_def list_ex_iff split: if_splits)

lemma kbins_fit_length: "kbins_fit n strat X = Inr kb \<Longrightarrow> length kb = length X"
  by (auto simp: kbins_fit_def split: if_splits)

lemma src_frame_length: "src_frame x srcs = Inr X \<Longrightarrow> length X = length srcs"
  by (auto simp: src_frame_def split: if_splits)

lemma num_fit_Inr:
  assumes "num_fit agg self F = Inr fs"
  shows "\<exists>kb bF. src_cols fs = Some (map fst (column_pairs self)) \<and>
     dest_cols fs = Some (map snd (column_pairs self)) \<and>
     kbins_discretizor fs = Some kb \<and> length kb = length (column_pairs self) \<and>
     binned_frame (map fst (column_pairs self)) kb F = Inr bF \<and>
     fit_pairs agg bF F (column_pairs self) (impute_value_dict self) = Inr (impute_value_dict fs)"
proof -
  from assms obtain X kb bF d where X: "src_frame F (map fst (column_pairs self)) = Inr X"
    and kb: "kbins_fit (n_bins self) (binning_strategy self) X = Inr kb"
    and bF: "binned_frame (map fst (column_pairs self)) kb F = Inr bF"
    and d: "fit_pairs agg bF F (column_pairs self) (impute_value_dict self) = Inr d"
    and fs: "fs = self\<lparr>src_cols := Some (map fst (column_pairs self)),
               dest_cols := Some (map snd (column_pairs self)),
               impute_value_dict := d,
               kbins_discretizor := Some kb\<rparr>"
    by (auto simp: num_fit_def Let_def and_then_eq_Inr)
  have "length kb = length (column_pairs self)"
    using kbins_fit_length [OF kb] src_frame_length [OF X] by simp
  with bF d fs show ?thesis by simp
qed

lemma num_transform_Inr:
  assumes "num_transform fs D = Inr D'" and "src_cols fs = Some (map fst ps)"
    and "dest_cols fs = Some (map snd ps)" and "kbins_discretizor fs = Some kb"
  shows "\<exists>bD. binned_frame (map fst ps) kb D = Inr bD \<and>
     impute_pairs (Some bD) (impute_value_dict fs) ps D = Inr D'"
  using assms by (auto simp: num_transform_def and_then_eq_Inr zip_map_fst_snd)

lemma bin_row_Num:
  assumes "s \<in> set srcs" and "length kb = length srcs" and "is_Num (fillna0 (r s))"
  shows "bin_row srcs kb r s \<noteq> NaN"
proof -
  from assms(1,2) obtain e where "map_of (zip srcs kb) s = Some e"
    by (metis map_of_zip_is_Some option.exhaust option.simps(3))
  moreover from assms(3) obtain v where "fillna0 (r s) = Num v"
    by (cases "fillna0 (r s)") (simp_all add: is_Num_def)
  ultimately show ?thesis by (simp add: bin_row_def bin_cell_def)
qed

lemma median_agg_group:
  assumes "median_agg vs = Inr m" and "vs \<noteq> []" and "NaN \<notin> set vs"
  shows "m = Num (median (nums vs))"
proof -
  from assms(1) have ns: "\<not> list_ex is_Str vs"
    by (auto simp: median_agg_def split: if_splits)
  obtain v vs' where vs: "vs = v # vs'" using assms(2) by (cases vs) auto
  from ns assms(3) vs obtain a where "v = Num a"
    by (cases v) auto
  with vs have "nums vs \<noteq> []" by simp
  with assms(1,3) ns show ?thesis
    by (auto simp: median_agg_def split: if_splits)
qed

lemma NaN_notin_group_of [simp]: "NaN \<notin> set (group_of key t x k)"
  by (auto simp: group_of_def)

lemma source_bin_fitted:
  "src_cols fs = Some ss \<Longrightarrow> kbins_discretizor fs = Some kb \<Longrightarrow>
   source_bin fs r s = bin_row ss kb r s"
  by (simp add: source_bin_def)


lemma ex_num: "NumAndNumImputer_fit (num_imputer_init [(''x'', ''y''), (''z'', ''y'')] 2 Uniform) ex_F = Inr ex_num"
proof -
  have "\<not> isl (NumAndNumImputer_fit (num_imputer_init [(''x'', ''y''), (''z'', ''y'')] 2 Uniform) ex_F)"
    by code_simp
  then show ?thesis unfolding ex_num_def by (rule fitted_eq)
qed

lemma ex_skip:
  "NumAndNumImputer_fit (num_imputer_init [(''x'', ''y''), (''z'', ''y'')] 2 Uniform) ex_skip_F =
   Inr ex_skip"
proof -
  have "\<not> isl (NumAndNumImputer_fit
      (num_imputer_init [(''x'', ''y''), (''z'', ''y'')] 2 Uniform) ex_skip_F)"
    by code_simp
  then show ?thesis unfolding ex_skip_def by (rule fitted_eq)
qed

lemma ex_skip_out: "NumAndNumImputer_transform ex_skip ex_skip_D = Inr ex_skip_out"
proof -
  have "\<not> isl (NumAndNumImputer_transform ex_skip ex_skip_D)" by code_simp
  then show ?thesis unfolding ex_skip_out_def by (rule fitted_eq)
qed

lemma ex_clash_num:
  "NumAndNumImputer_fit (num_imputer_init ex_clash_pairs 2 Uniform) ex_clash_F = Inr ex_clash_num"
proof -
  have "\<not> isl (NumAndNumImputer_fit (num_imputer_init ex_clash_pairs 2 Uniform) ex_clash_F)"
    by code_simp
  then show ?thesis unfolding ex_clash_num_def by (rule fitted_eq)
qed

lemma ex_clash_out: "NumAndNumImputer_transform ex_clash_num ex_clash_D = Inr ex_clash_out"
proof -
  have "\<not> isl (NumAndNumImputer_transform ex_clash_num ex_clash_D)" by code_simp
  then show ?thesis unfolding ex_clash_out_def by (rule fitted_eq)
qed

text \<open>
  C1, as the code has it. Let a numeric-to-numeric imputer be fitted on \<^verbatim>\<open>F\<close> and applied
  to \<^verbatim>\<open>D\<close>, and let \<^verbatim>\<open>p\<close> be one of its pairs, such that no later pair other than \<^verbatim>\<open>p\<close> has
  the lookup key of \<^verbatim>\<open>p\<close> (the dict keeps the table of the last pair of a key). Take a
  cell of the destination of \<^verbatim>\<open>p\<close> that is missing in \<^verbatim>\<open>D\<close>, in a row whose bin of the
  source of \<^verbatim>\<open>p\<close> has a non-empty fitted group, and such that the table of no earlier pair
  with the same destination has an entry for the row's bin of that pair's source. Then
  after \<^verbatim>\<open>transform\<close> the cell holds the median of the group (so it is no longer
  missing): of the pairs that share a destination, the first whose table has the row's
  bin fills the cell.
\<close>

theorem missing_cell_gets_group_median:
  assumes fit: "NumAndNumImputer_fit self F = Inr fs"
    and tr: "NumAndNumImputer_transform fs D = Inr D'"
    and ps: "column_pairs self = pre @ p # post"
    and later: "\<forall>q\<in>set post. lookup_key q = lookup_key p \<longrightarrow> q = p"
    and earlier: "\<forall>q\<in>set pre. snd q = snd p \<longrightarrow>
       no_entry (impute_value_dict fs) q (source_bin fs (rows D ! i) (fst q))"
    and i: "i < length (rows D)" and nan: "(rows D ! i) (snd p) = NaN"
    and g: "group_of (\<lambda>r. source_bin fs r (fst p)) (snd p) F
        (source_bin fs (rows D ! i) (fst p)) \<noteq> []"
  shows "(rows D' ! i) (snd p) = Num (median (nums
     (group_of (\<lambda>r. source_bin fs r (fst p)) (snd p) F (source_bin fs (rows D ! i) (fst p)))))"
proof -
  let ?ps = "column_pairs self"
  let ?ss = "map fst ?ps"
  let ?s = "fst p" and ?t = "snd p"
  have p: "p \<in> set ?ps" using ps by simp
  from fit have "num_fit median_agg self F = Inr fs"
    by (simp add: NumAndNumImputer_fit_def)
  from num_fit_Inr [OF this] obtain kb bF where sc: "src_cols fs = Some ?ss"
    and dc: "dest_cols fs = Some (map snd ?ps)" and kd: "kbins_discretizor fs = Some kb"
    and lk: "length kb = length ?ps" and bF: "binned_frame ?ss kb F = Inr bF"
    and fp: "fit_pairs median_agg bF F ?ps (impute_value_dict self) = Inr (impute_value_dict fs)"
    by blast
  have sb: "\<And>r s. source_bin fs r s = bin_row ?ss kb r s"
    using source_bin_fitted [OF sc kd] .
  from tr have "num_transform fs D = Inr D'"
    by (simp add: NumAndNumImputer_transform_def)
  from num_transform_Inr [OF this sc dc kd] obtain bD where bD: "binned_frame ?ss kb D = Inr bD"
    and ip: "impute_pairs (Some bD) (impute_value_dict fs) ?ps D = Inr D'"
    by blast
  note F = binned_frame_Inr [OF bF] and D = binned_frame_Inr [OF bD]
  define k where "k = bin_row ?ss kb (rows D ! i) ?s"
  define grp where "grp = group_of (\<lambda>r. bin_row ?ss kb r ?s) ?t F k"
  have s_in: "?s \<in> set ?ss" using p by simp
  have "is_Num (fillna0 ((rows D ! i) ?s))"
    using D s_in i by (meson nth_mem)
  then have kn: "k \<noteq> NaN"
    unfolding k_def using s_in lk by (intro bin_row_Num) simp_all
  have gne: "grp \<noteq> []" using g by (simp add: sb grp_def k_def)
  from fit_pairs_lookup_last [OF fp [unfolded ps] later] obtain tbl where
    t: "fit_pair median_agg bF F p = Inr tbl" and d: "impute_value_dict fs (lookup_key p) = Some tbl"
    by blast
  have rF: "rows bF = map (bin_row ?ss kb) (rows F)" using F by simp
  have pt: "pair_table median_agg ?s ?t (map (\<lambda>r. bin_row ?ss kb r ?s) (rows F))
     (map (\<lambda>r. r ?t) (rows F)) = Inr tbl"
    using fit_pair_rows [OF t rF] by simp
  have al: "aligned (Some bD) D" using binned_frame_aligned [OF bD] .
  from ip obtain x1 where x1: "impute_pairs (Some bD) (impute_value_dict fs) pre D = Inr x1"
    and r1: "impute_pairs (Some bD) (impute_value_dict fs) (p # post) x1 = Inr D'"
    unfolding ps impute_pairs_append by (auto simp: and_then_eq_Inr)
  from r1 d obtain x2 where x2: "apply_table (Some bD) ?s ?t tbl x1 = Inr x2"
    and r2: "impute_pairs (Some bD) (impute_value_dict fs) post x2 = Inr D'"
    by (auto simp: and_then_eq_Inr)
  have ne: "?s \<noteq> ?t"
  proof
    assume same: "?s = ?t"
    from gne obtain r where r: "r \<in> set (rows F)" "r ?t \<noteq> NaN"
      by (auto simp: grp_def group_of_def filter_empty_conv)
    then have "r ?t \<in> set (map (\<lambda>r. r ?t) (rows F))" by simp
    from pair_table_self [OF pt [unfolded same] this r(2)] have "[r ?t] \<in> set tbl" .
    with apply_table_shape [OF x2] show False by force
  qed
  from pair_table_key [OF pt ne kn] gne obtain m where m_in: "[k, m] \<in> set tbl"
    and agg: "median_agg grp = Inr m"
    unfolding grp_def by blast
  have m: "m = Num (median (nums grp))"
    using median_agg_group [OF agg gne] by (simp add: grp_def)
  then have mn: "m \<noteq> NaN" by simp
  have func: "\<forall>cat\<in>set tbl. hd cat = k \<longrightarrow> cat ! 1 = m"
  proof (intro ballI impI)
    fix cat assume "cat \<in> set tbl" and h: "hd cat = k"
    from pair_table_row [OF pt ne this(1)] obtain k' m' where "cat = [k', m']"
      and "median_agg (group_of (\<lambda>r. bin_row ?ss kb r ?s) ?t F k') = Inr m'" by blast
    with h agg show "cat ! 1 = m" by (simp add: grp_def)
  qed
  note k1 = impute_pairs_keeps [OF x1 al]
  have al1: "aligned (Some bD) x1" using aligned_same_length [OF al] k1 by simp
  have i1: "i < length (rows x1)" using k1 i by simp
  have keys: "\<And>s. key_of (Some bD) x1 i s = source_bin fs (rows D ! i) s"
    using D i by (simp add: key_of_def sb)
  have "\<forall>q\<in>set pre. snd q = ?t \<longrightarrow>
      no_entry (impute_value_dict fs) q (key_of (Some bD) x1 i (fst q))"
    using earlier by (simp add: keys)
  from impute_pairs_no_match [OF x1 al i this] nan have c1: "(rows x1 ! i) ?t = NaN" by simp
  have key: "key_of (Some bD) x1 i ?s = k"
    using keys by (simp add: sb k_def)
  have c2: "(rows x2 ! i) ?t = m"
    by (rule apply_table_fills [OF x2 al1 i1 _ key kn c1 m_in func mn]) simp
  note k2 = apply_table_keeps [OF x2 al1]
  have al2: "aligned (Some bD) x2" using aligned_same_length [OF al1] k2 by simp
  have i2: "i < length (rows x2)" using k2 i1 by simp
  from impute_pairs_keeps [OF r2 al2] i2 c2 mn have "(rows D' ! i) ?t = m" by auto
  then show ?thesis
    by (simp add: m grp_def sb k_def)
qed

text \<open>
  The pairs \<^verbatim>\<open>(x, y)\<close> and \<^verbatim>\<open>(z, y)\<close> share the destination. In the first frame the first
  pair has a group for the row's bin and fills the cell with its median, 15. In the
  second the table of the first pair has no entry for the row's bin of \<^verbatim>\<open>x\<close>, and the
  second pair fills the cell with the median of its group, 20.
\<close>

theorem missing_cell_gets_group_median_witness:
  "NumAndNumImputer_fit (num_imputer_init [(''x'', ''y''), (''z'', ''y'')] 2 Uniform) ex_F = Inr ex_num \<and>
   NumAndNumImputer_transform ex_num ex_D = Inr ex_num_out \<and>
   (rows ex_D ! 0) ''y'' = NaN \<and>
   group_of (\<lambda>r. source_bin ex_num r ''x'') ''y'' ex_F (source_bin ex_num (rows ex_D ! 0) ''x'') =
     [Num 10, Num 20] \<and>
   (rows ex_num_out ! 0) ''y'' = Num (median (nums
     (group_of (\<lambda>r. source_bin ex_num r ''x'') ''y'' ex_F
        (source_bin ex_num (rows ex_D ! 0) ''x'')))) \<and>
   (rows ex_num_out ! 0) ''y'' = Num 15 \<and>
   NumAndNumImputer_fit (num_imputer_init [(''x'', ''y''), (''z'', ''y'')] 2 Uniform) ex_skip_F =
     Inr ex_skip \<and>
   NumAndNumImputer_transform ex_skip ex_skip_D = Inr ex_skip_out \<and>
   (rows ex_skip_D ! 0) ''y'' = NaN \<and>
   impute_value_dict ex_skip (lookup_key (''x'', ''y'')) = Some [[Num 1, Num 30]] \<and>
   source_bin ex_skip (rows ex_skip_D ! 0) ''x'' = Num 0 \<and>
   no_entry (impute_value_dict ex_skip) (''x'', ''y'') (source_bin ex_skip (rows ex_skip_D ! 0) ''x'') \<and>
   group_of (\<lambda>r. source_bin ex_skip r ''z'') ''y'' ex_skip_F
     (source_bin ex_skip (rows ex_skip_D ! 0) ''z'') = [Num 20] \<and>
   (rows ex_skip_out ! 0) ''y'' = Num (median (nums
     (group_of (\<lambda>r. source_bin ex_skip r ''z'') ''y'' ex_skip_F
        (source_bin ex_skip (rows ex_skip_D ! 0) ''z'')))) \<and>
   (rows ex_skip_out ! 0) ''y'' = Num 20"
proof -
  let ?p = "(''x'', ''y'')" and ?q = "(''z'', ''y'')"
  let ?init = "num_imputer_init [?p, ?q] 2 Uniform"
  have n: "(rows ex_D ! 0) ''y'' = NaN" by (simp add: ex_D_def)
  have g: "group_of (\<lambda>r. source_bin ex_num r ''x'') ''y'' ex_F
      (source_bin ex_num (rows ex_D ! 0) ''x'') = [Num 10, Num 20]"
    by code_simp
  have v: "(rows ex_num_out ! 0) ''y'' = Num 15" by code_simp
  have c: "(rows ex_num_out ! 0) (snd ?p) = Num (median (nums
     (group_of (\<lambda>r. source_bin ex_num r (fst ?p)) (snd ?p) ex_F
        (source_bin ex_num (rows ex_D ! 0) (fst ?p)))))"
  proof (rule missing_cell_gets_group_median [OF ex_num ex_num_out, where pre = "[]" and post = "[?q]"])
    show "column_pairs ?init = [] @ ?p # [?q]" by (simp add: num_imputer_init_def)
    show "\<forall>q\<in>set [?q]. lookup_key q = lookup_key ?p \<longrightarrow> q = ?p"
      by (simp add: lookup_key_def)
    show "\<forall>q\<in>set []. snd q = snd ?p \<longrightarrow>
       no_entry (impute_value_dict ex_num) q (source_bin ex_num (rows ex_D ! 0) (fst q))"
      by simp
    show "0 < length (rows ex_D)" by (simp add: ex_D_def)
    show "(rows ex_D ! 0) (snd ?p) = NaN" using n by simp
    show "group_of (\<lambda>r. source_bin ex_num r (fst ?p)) (snd ?p) ex_F
        (source_bin ex_num (rows ex_D ! 0) (fst ?p)) \<noteq> []"
      using g by simp
  qed
  have n2: "(rows ex_skip_D ! 0) ''y'' = NaN" by (simp add: ex_skip_D_def)
  have t2: "impute_value_dict ex_skip (lookup_key ?p) = Some [[Num 1, Num 30]]" by code_simp
  have b2: "source_bin ex_skip (rows ex_skip_D ! 0) ''x'' = Num 0" by code_simp
  have e2: "no_entry (impute_value_dict ex_skip) ?p (source_bin ex_skip (rows ex_skip_D ! 0) ''x'')"
    unfolding no_entry_def t2 b2 by (simp add: cell_eq_def)
  have g2: "group_of (\<lambda>r. source_bin ex_skip r ''z'') ''y'' ex_skip_F
      (source_bin ex_skip (rows ex_skip_D ! 0) ''z'') = [Num 20]"
    by code_simp
  have v2: "(rows ex_skip_out ! 0) ''y'' = Num 20" by code_simp
  have c2: "(rows ex_skip_out ! 0) (snd ?q) = Num (median (nums
     (group_of (\<lambda>r. source_bin ex_skip r (fst ?q)) (snd ?q) ex_skip_F
        (source_bin ex_skip (rows ex_skip_D ! 0) (fst ?q)))))"
  proof (rule missing_cell_gets_group_median [OF ex_skip ex_skip_out, where pre = "[?p]" and post = "[]"])
    show "column_pairs ?init = [?p] @ ?q # []" by (simp add: num_imputer_init_def)
    show "\<forall>q\<in>set []. lookup_key q = lookup_key ?q \<longrightarrow> q = ?q" by simp
    show "\<forall>q\<in>set [?p]. snd q = snd ?q \<longrightarrow>
       no_entry (impute_value_dict ex_skip) q (source_bin ex_skip (rows ex_skip_D ! 0) (fst q))"
      using e2 by simp
    show "0 < length (rows ex_skip_D)" by (simp add: ex_skip_D_def)
    show "(rows ex_skip_D ! 0) (snd ?q) = NaN" using n2 by simp
    show "group_of (\<lambda>r. source_bin ex_skip r (fst ?q)) (snd ?q) ex_skip_F
        (source_bin ex_skip (rows ex_skip_D ! 0) (fst ?q)) \<noteq> []"
      using g2 by simp
  qed
  show ?thesis using ex_num ex_num_out n g c v ex_skip ex_skip_out n2 t2 b2 e2 g2 c2 v2 by simp
qed

text \<open>
  The claim as stated fails when two pairs share the destination. For the pairs
  \<^verbatim>\<open>(x, y)\<close> and \<^verbatim>\<open>(z, y)\<close>, row 0 has a missing \<^verbatim>\<open>y\<close> and its bin of \<^verbatim>\<open>z\<close> has the fitted
  group [20, 40] with the median 30, but the cell ends at 15, the median of the group
  of its bin of \<^verbatim>\<open>x\<close>: the first pair filled it, and the second pair skips present cells.
  It also fails for a pair whose lookup key a later pair has: for the pairs
  \<^verbatim>\<open>(a_b, c)\<close> and \<^verbatim>\<open>(a, b_c)\<close> the dict keeps the table of the second pair under the
  shared key, and the missing \<^verbatim>\<open>c\<close> of a row whose bin of \<^verbatim>\<open>a_b\<close> has the fitted group [5]
  ends at 100.
\<close>

theorem shared_destination_counterexample:
  "NumAndNumImputer_fit (num_imputer_init [(''x'', ''y''), (''z'', ''y'')] 2 Uniform) ex_F = Inr ex_num \<and>
   NumAndNumImputer_transform ex_num ex_D = Inr ex_num_out \<and>
   (rows ex_D ! 0) ''y'' = NaN \<and>
   source_bin ex_num (rows ex_D ! 0) ''z'' = Num 1 \<and>
   group_of (\<lambda>r. source_bin ex_num r ''z'') ''y'' ex_F (Num 1) = [Num 20, Num 40] \<and>
   median (nums [Num 20, Num 40]) = 30 \<and>
   impute_value_dict ex_num (lookup_key (''z'', ''y'')) = Some [[Num 0, Num 10], [Num 1, Num 30]] \<and>
   (rows ex_num_out ! 0) ''y'' = Num 15 \<and>
   (rows ex_num_out ! 0) ''y'' \<noteq> Num (median (nums
      (group_of (\<lambda>r. source_bin ex_num r ''z'') ''y'' ex_F (source_bin ex_num (rows ex_D ! 0) ''z'')))) \<and>
   NumAndNumImputer_fit (num_imputer_init [(''a_b'', ''c''), (''a'', ''b_c'')] 2 Uniform) ex_clash_F =
     Inr ex_clash_num \<and>
   NumAndNumImputer_transform ex_clash_num ex_clash_D = Inr ex_clash_out \<and>
   lookup_key (''a_b'', ''c'') = lookup_key (''a'', ''b_c'') \<and>
   (rows ex_clash_D ! 0) ''c'' = NaN \<and>
   source_bin ex_clash_num (rows ex_clash_D ! 0) ''a_b'' = Num 0 \<and>
   group_of (\<lambda>r. source_bin ex_clash_num r ''a_b'') ''c'' ex_clash_F (Num 0) = [Num 5] \<and>
   median (nums [Num 5]) = 5 \<and>
   (rows ex_clash_out ! 0) ''c'' = Num 100 \<and>
   (rows ex_clash_out ! 0) ''c'' \<noteq> Num (median (nums
      (group_of (\<lambda>r. source_bin ex_clash_num r ''a_b'') ''c'' ex_clash_F
         (source_bin ex_clash_num (rows ex_clash_D ! 0) ''a_b''))))"
proof -
  have n: "(rows ex_D ! 0) ''y'' = NaN" by (simp add: ex_D_def)
  have b: "source_bin ex_num (rows ex_D ! 0) ''z'' = Num 1" by code_simp
  have g: "group_of (\<lambda>r. source_bin ex_num r ''z'') ''y'' ex_F (Num 1) = [Num 20, Num 40]"
    by code_simp
  have m: "median (nums [Num 20, Num 40]) = 30" by code_simp
  have t: "impute_value_dict ex_num (lookup_key (''z'', ''y'')) = Some [[Num 0, Num 10], [Num 1, Num 30]]"
    by code_simp
  have v: "(rows ex_num_out ! 0) ''y'' = Num 15" by code_simp
  have f2: "NumAndNumImputer_fit (num_imputer_init [(''a_b'', ''c''), (''a'', ''b_c'')] 2 Uniform)
      ex_clash_F = Inr ex_clash_num"
    using ex_clash_num by (simp add: ex_clash_pairs_def)
  have l2: "lookup_key (''a_b'', ''c'') = lookup_key (''a'', ''b_c'')"
    by (simp add: lookup_key_def)
  have n2: "(rows ex_clash_D ! 0) ''c'' = NaN" by (simp add: ex_clash_D_def)
  have b2: "source_bin ex_clash_num (rows ex_clash_D ! 0) ''a_b'' = Num 0" by code_simp
  have g2: "group_of (\<lambda>r. source_bin ex_clash_num r ''a_b'') ''c'' ex_clash_F (Num 0) = [Num 5]"
    by code_simp
  have m2: "median (nums [Num 5]) = 5" by code_simp
  have v2: "(rows ex_clash_out ! 0) ''c'' = Num 100" by code_simp
  show ?thesis
    using ex_num ex_num_out n b g m t v f2 ex_clash_out l2 n2 b2 g2 m2 v2 by simp
qed

section \<open>Rows that no table entry matches\<close>













lemma ex_link:
  "CatAndCatImputer_fit (pair_imputer_init [(''a'', ''b''), (''b'', ''c'')]) ex_link_F = Inr ex_link"
proof -
  have "\<not> isl (CatAndCatImputer_fit (pair_imputer_init [(''a'', ''b''), (''b'', ''c'')]) ex_link_F)"
    by code_simp
  then show ?thesis unfolding ex_link_def by (rule fitted_eq)
qed

lemma ex_link_out: "CatAndCatImputer_transform ex_link ex_link_D = Inr ex_link_out"
proof -
  have "\<not> isl (CatAndCatImputer_transform ex_link ex_link_D)" by code_simp
  then show ?thesis unfolding ex_link_out_def by (rule fitted_eq)
qed


section \<open>Ties of the mode\<close>



section \<open>A constant source column\<close>









section \<open>Missing source values are binned as zero\<close>

lemma fillna0_idem [simp]: "fillna0 (fillna0 c) = fillna0 c"
  by (simp add: fillna0_def)

lemma columns_zero_fill [simp]: "columns (zero_fill cs x) = columns x"
  by (simp add: zero_fill_def)

lemma rows_zero_fill:
  "rows (zero_fill cs x) = map (\<lambda>r c. if c \<in> cs then fillna0 (r c) else r c) (rows x)"
  by (simp add: zero_fill_def)

lemma src_frame_zero_fill: "src_frame (zero_fill cs x) srcs = src_frame x srcs"
  by (simp add: src_frame_def rows_zero_fill comp_def)

lemma bin_row_zero_fill:
  "bin_row srcs kb (\<lambda>c. if c \<in> cs then fillna0 (r c) else r c) = bin_row srcs kb r"
  by (auto simp: bin_row_def fun_eq_iff split: option.splits)

lemma map_bin_row_zero_fill:
  "map (bin_row srcs kb) (rows (zero_fill cs x)) = map (bin_row srcs kb) (rows x)"
  by (simp add: rows_zero_fill comp_def bin_row_zero_fill)

lemma binned_frame_zero_fill: "binned_frame srcs kb (zero_fill cs x) = binned_frame srcs kb x"
  unfolding binned_frame_def src_frame_zero_fill map_bin_row_zero_fill ..

lemma getcol_zero_fill: "t \<notin> cs \<Longrightarrow> getcol (zero_fill cs x) t = getcol x t"
  by (simp add: getcol_def rows_zero_fill comp_def)

lemma fit_pairs_zero_fill:
  "cs \<inter> snd ` set ps = {} \<Longrightarrow> fit_pairs agg bx (zero_fill cs x) ps d = fit_pairs agg bx x ps d"
proof (induction ps arbitrary: d)
  case Nil
  then show ?case by simp
next
  case (Cons p ps)
  then have "snd p \<notin> cs" and "cs \<inter> snd ` set ps = {}" by auto
  then show ?case
    using Cons.IH by (simp add: fit_pair_def getcol_zero_fill)
qed

lemma num_fit_zero_fill:
  "num_fit agg self (zero_fill (fst ` set (column_pairs self) - snd ` set (column_pairs self)) x) =
   num_fit agg self x"
  by (simp add: num_fit_def src_frame_zero_fill binned_frame_zero_fill fit_pairs_zero_fill
      Diff_Int_distrib2 cong: if_cong)

lemma on_result_Inr [simp]: "on_result f (Inr v) = Inr (f v)"
  by (simp add: on_result_def)

lemma on_result_Inl [simp]: "on_result f (Inl e) = Inl e"
  by (simp add: on_result_def)

lemma assign_zero_fill:
  "t \<notin> cs \<Longrightarrow> assign ks sv t dv (zero_fill cs x) = zero_fill cs (assign ks sv t dv x)"
proof -
  assume t: "t \<notin> cs"
  have "\<And>k r. fill_row k sv t dv (\<lambda>c. if c \<in> cs then fillna0 (r c) else r c) =
      (\<lambda>c. if c \<in> cs then fillna0 (fill_row k sv t dv r c) else fill_row k sv t dv r c)"
    using t by (auto simp: fill_row_def fun_eq_iff)
  then show ?thesis
    by (simp add: assign_def zero_fill_def zip_map2 comp_def split_def)
qed

lemma apply_table_zero_fill:
  "t \<notin> cs \<Longrightarrow> apply_table (Some bx) s t tbl (zero_fill cs x) =
     on_result (zero_fill cs) (apply_table (Some bx) s t tbl x)"
proof (induction tbl arbitrary: x)
  case Nil
  then show ?case by simp
next
  case (Cons cat cats)
  show ?case
  proof (cases cat)
    case Nil
    then show ?thesis by simp
  next
    case c1: (Cons sv rest)
    show ?thesis
    proof (cases rest)
      case Nil
      with c1 show ?thesis by simp
    next
      case c2: (Cons dv rest')
      show ?thesis
      proof (cases "getcol bx s")
        case (Inl e)
        with c1 c2 show ?thesis by simp
      next
        case (Inr ks)
        show ?thesis
        proof (cases "getcol x t")
          case (Inl e)
          with c1 c2 Inr Cons.prems show ?thesis by (simp add: getcol_zero_fill)
        next
          case r: (Inr vs)
          with c1 c2 Inr Cons.prems show ?thesis
            by (simp add: getcol_zero_fill assign_zero_fill Cons.IH)
        qed
      qed
    qed
  qed
qed

lemma impute_pairs_zero_fill:
  "cs \<inter> snd ` set ps = {} \<Longrightarrow> impute_pairs (Some bx) d ps (zero_fill cs x) =
     on_result (zero_fill cs) (impute_pairs (Some bx) d ps x)"
proof (induction ps arbitrary: x)
  case Nil
  then show ?case by simp
next
  case (Cons p ps)
  then have t: "snd p \<notin> cs" and rest: "cs \<inter> snd ` set ps = {}" by auto
  show ?case
  proof (cases "d (lookup_key p)")
    case None
    then show ?thesis by simp
  next
    case (Some tbl)
    show ?thesis
    proof (cases "apply_table (Some bx) (fst p) (snd p) tbl x")
      case (Inl e)
      with Some t show ?thesis by (simp add: apply_table_zero_fill)
    next
      case (Inr x1)
      with Some t show ?thesis by (simp add: apply_table_zero_fill Cons.IH [OF rest])
    qed
  qed
qed

lemma num_transform_zero_fill:
  "num_transform fs (zero_fill (pure_sources fs) D) =
   on_result (zero_fill (pure_sources fs)) (num_transform fs D)"
proof (cases "src_cols fs")
  case None
  then show ?thesis by (simp add: num_transform_def)
next
  case ss: (Some ss)
  show ?thesis
  proof (cases "kbins_discretizor fs")
    case None
    with ss show ?thesis by (simp add: num_transform_def)
  next
    case kb: (Some kb)
    show ?thesis
    proof (cases "dest_cols fs")
      case None
      with ss kb show ?thesis by (simp add: num_transform_def)
    next
      case ds: (Some ds)
      have ps: "pure_sources fs = set ss - set ds" using ss ds by (simp add: pure_sources_def)
      have dis: "(set ss - set ds) \<inter> snd ` set (zip ss ds) = {}"
        by (auto dest: set_zip_rightD)
      show ?thesis
      proof (cases "binned_frame ss kb D")
        case (Inl e)
        with ss kb ds ps show ?thesis
          by (simp add: num_transform_def binned_frame_zero_fill)
      next
        case (Inr bD)
        with ss kb ds ps show ?thesis
          by (simp add: num_transform_def binned_frame_zero_fill impute_pairs_zero_fill [OF dis])
      qed
    qed
  qed
qed

lemma num_fit_kbins:
  assumes "num_fit agg self x = Inr fs"
  shows "\<exists>kb. kbins_discretizor fs = Some kb \<and>
     kbins_fit (n_bins self) (binning_strategy self)
       (map (\<lambda>c. map (\<lambda>r. if r c = NaN then Num 0 else r c) (rows x))
          (map fst (column_pairs self))) = Inr kb"
proof -
  from assms obtain X kb where X: "src_frame x (map fst (column_pairs self)) = Inr X"
    and kb: "kbins_fit (n_bins self) (binning_strategy self) X = Inr kb"
    and k: "kbins_discretizor fs = Some kb"
    by (auto simp: num_fit_def Let_def and_then_eq_Inr)
  from X have "X = map (\<lambda>c. map (\<lambda>r. if r c = NaN then Num 0 else r c) (rows x))
          (map fst (column_pairs self))"
    by (auto simp: src_frame_def fillna0_def split: if_splits)
  with kb k show ?thesis by simp
qed

lemma source_bin_zero: "source_bin fs (r(s := NaN)) s = source_bin fs (r(s := Num 0)) s"
  by (simp add: source_bin_def bin_row_def fillna0_def split: option.splits)

lemma ex_gap_fs:
  "NumAndNumImputer_fit (num_imputer_init [(''x'', ''y'')] 2 Uniform) ex_gap = Inr ex_gap_fs"
proof -
  have "\<not> isl (NumAndNumImputer_fit (num_imputer_init [(''x'', ''y'')] 2 Uniform) ex_gap)"
    by code_simp
  then show ?thesis unfolding ex_gap_fs_def by (rule fitted_eq)
qed

lemma ex_gap_nc:
  "NumAndCatImputer_fit (num_imputer_init [(''x'', ''y'')] 2 Uniform) ex_gap = Inr ex_gap_nc"
proof -
  have "\<not> isl (NumAndCatImputer_fit (num_imputer_init [(''x'', ''y'')] 2 Uniform) ex_gap)"
    by code_simp
  then show ?thesis unfolding ex_gap_nc_def by (rule fitted_eq)
qed

text \<open>
  C9. For both numeric-source imputers: the discretizer that \<^verbatim>\<open>fit\<close> stores is fitted on
  the source columns with every missing value replaced by 0; a row with a missing
  source value has the bin of the same row with the value 0; and replacing the missing
  values of the source columns by zero beforehand changes neither what \<^verbatim>\<open>fit\<close> returns
  nor what \<^verbatim>\<open>transform\<close> fills (for the source columns that are not destinations
  themselves: a missing destination value is what is imputed).
\<close>

theorem missing_source_is_binned_as_zero:
  "(NumAndNumImputer_fit self x = Inr fs \<longrightarrow>
      (\<exists>kb. kbins_discretizor fs = Some kb \<and>
         kbins_fit (n_bins self) (binning_strategy self)
           (map (\<lambda>c. map (\<lambda>r. if r c = NaN then Num 0 else r c) (rows x))
              (map fst (column_pairs self))) = Inr kb)) \<and>
   (NumAndCatImputer_fit self x = Inr fs \<longrightarrow>
      (\<exists>kb. kbins_discretizor fs = Some kb \<and>
         kbins_fit (n_bins self) (binning_strategy self)
           (map (\<lambda>c. map (\<lambda>r. if r c = NaN then Num 0 else r c) (rows x))
              (map fst (column_pairs self))) = Inr kb)) \<and>
   source_bin fs (r(s := NaN)) s = source_bin fs (r(s := Num 0)) s \<and>
   NumAndNumImputer_fit self
     (zero_fill (fst ` set (column_pairs self) - snd ` set (column_pairs self)) x) =
     NumAndNumImputer_fit self x \<and>
   NumAndCatImputer_fit self
     (zero_fill (fst ` set (column_pairs self) - snd ` set (column_pairs self)) x) =
     NumAndCatImputer_fit self x \<and>
   NumAndNumImputer_transform fs (zero_fill (pure_sources fs) x) =
     on_result (zero_fill (pure_sources fs)) (NumAndNumImputer_transform fs x) \<and>
   NumAndCatImputer_transform fs (zero_fill (pure_sources fs) x) =
     on_result (zero_fill (pure_sources fs)) (NumAndCatImputer_transform fs x)"
  using num_fit_kbins [of median_agg self x fs] num_fit_kbins [of mode_agg self x fs]
  by (simp add: NumAndNumImputer_fit_def NumAndCatImputer_fit_def NumAndNumImputer_transform_def
      NumAndCatImputer_transform_def num_fit_zero_fill num_transform_zero_fill source_bin_zero)

theorem missing_source_is_binned_as_zero_witness:
  "NumAndNumImputer_fit (num_imputer_init [(''x'', ''y'')] 2 Uniform) ex_gap = Inr ex_gap_fs \<and>
   (\<exists>kb. kbins_discretizor ex_gap_fs = Some kb \<and>
      kbins_fit (n_bins (num_imputer_init [(''x'', ''y'')] 2 Uniform))
        (binning_strategy (num_imputer_init [(''x'', ''y'')] 2 Uniform))
        (map (\<lambda>c. map (\<lambda>r. if r c = NaN then Num 0 else r c) (rows ex_gap))
           (map fst (column_pairs (num_imputer_init [(''x'', ''y'')] 2 Uniform)))) = Inr kb) \<and>
   NumAndCatImputer_fit (num_imputer_init [(''x'', ''y'')] 2 Uniform) ex_gap = Inr ex_gap_nc \<and>
   (\<exists>kb. kbins_discretizor ex_gap_nc = Some kb \<and>
      kbins_fit (n_bins (num_imputer_init [(''x'', ''y'')] 2 Uniform))
        (binning_strategy (num_imputer_init [(''x'', ''y'')] 2 Uniform))
        (map (\<lambda>c. map (\<lambda>r. if r c = NaN then Num 0 else r c) (rows ex_gap))
           (map fst (column_pairs (num_imputer_init [(''x'', ''y'')] 2 Uniform)))) = Inr kb) \<and>
   map (\<lambda>r. if r ''x'' = NaN then Num 0 else r ''x'') (rows ex_gap) = [Num 4, Num 0, Num 8, Num 0] \<and>
   kbins_discretizor ex_gap_fs = Some [Edges [0, 4, 8]] \<and>
   impute_value_dict ex_gap_fs ''x_y'' = Some [[Num 0, Num 30], [Num 1, Num 30]] \<and>
   map (\<lambda>r. source_bin ex_gap_fs r ''x'') (rows ex_gap) = [Num 1, Num 0, Num 1, Num 0] \<and>
   map (\<lambda>r. r ''y'')
     (rows (fitted (NumAndNumImputer_transform ex_gap_fs ex_gap) ex_gap)) =
     [Num 10, Num 30, Num 50, Num 30]"
proof -
  let ?init = "num_imputer_init [(''x'', ''y'')] 2 Uniform"
  note T = missing_source_is_binned_as_zero [of ?init ex_gap]
  have a: "\<exists>kb. kbins_discretizor ex_gap_fs = Some kb \<and>
      kbins_fit (n_bins ?init) (binning_strategy ?init)
        (map (\<lambda>c. map (\<lambda>r. if r c = NaN then Num 0 else r c) (rows ex_gap))
           (map fst (column_pairs ?init))) = Inr kb"
    using T [of ex_gap_fs] ex_gap_fs by blast
  have b: "\<exists>kb. kbins_discretizor ex_gap_nc = Some kb \<and>
      kbins_fit (n_bins ?init) (binning_strategy ?init)
        (map (\<lambda>c. map (\<lambda>r. if r c = NaN then Num 0 else r c) (rows ex_gap))
           (map fst (column_pairs ?init))) = Inr kb"
    using T [of ex_gap_nc] ex_gap_nc by blast
  have c: "map (\<lambda>r. if r ''x'' = NaN then Num 0 else r ''x'') (rows ex_gap) =
      [Num 4, Num 0, Num 8, Num 0]"
    by (simp add: ex_gap_def)
  have d: "kbins_discretizor ex_gap_fs = Some [Edges [0, 4, 8]]" by code_simp
  have e: "impute_value_dict ex_gap_fs ''x_y'' = Some [[Num 0, Num 30], [Num 1, Num 30]]"
    by code_simp
  have f: "map (\<lambda>r. source_bin ex_gap_fs r ''x'') (rows ex_gap) = [Num 1, Num 0, Num 1, Num 0]"
    by code_simp
  have g: "map (\<lambda>r. r ''y'')
     (rows (fitted (NumAndNumImputer_transform ex_gap_fs ex_gap) ex_gap)) =
     [Num 10, Num 30, Num 50, Num 30]"
    by code_simp
  show ?thesis using ex_gap_fs a ex_gap_nc b c d e f g by blast
qed

section \<open>Transforming twice\<close>

subsection \<open>The outlier handler\<close>

lemma clip_cell_idem: "clip_cell fill lo hi v = Inr w \<Longrightarrow> clip_cell fill lo hi w = Inr w"
  by (cases "fill = PVal (Str ''na'')"; cases v; cases lo; cases hi;
      simp add: clip_cell_def Let_def split: if_splits; auto)

lemma mask_total: "\<forall>c\<in>set cs. \<exists>b. f c = Inr b \<Longrightarrow> \<exists>m. mask f cs = Inr m"
  by (induction cs) (auto simp: and_then_eq_Inr)

lemma set_below_total:
  "col \<in> set (columns x) \<Longrightarrow> \<forall>r\<in>set (rows x). \<exists>b. cell_lt (r col) b0 = Inr b \<Longrightarrow>
   \<exists>x'. set_below col (PVal b0) v x = Inr x'"
  using mask_total [of "map (\<lambda>r. r col) (rows x)" "\<lambda>a. cell_lt a b0"]
  by (auto simp: set_below_def getcol_def and_then_eq_Inr)

lemma set_above_total:
  "col \<in> set (columns x) \<Longrightarrow> \<forall>r\<in>set (rows x). \<exists>b. cell_lt b0 (r col) = Inr b \<Longrightarrow>
   \<exists>x'. set_above col (PVal b0) v x = Inr x'"
  using mask_total [of "map (\<lambda>r. r col) (rows x)" "\<lambda>a. cell_lt b0 a"]
  by (auto simp: set_above_def getcol_def and_then_eq_Inr)

lemma frame_eqI: "columns x = columns y \<Longrightarrow> rows x = rows y \<Longrightarrow> x = (y::dataframe)"
  by simp

lemma clip_twice_fix:
  assumes col: "col \<in> set (columns z)"
    and fx: "\<forall>r\<in>set (rows z). clip_cell fill lo hi (r col) = Inr (r col)"
    and lov: "lov = (\<lambda>b. if fill = PVal (Str ''na'') then NaN else b)"
  shows "\<exists>z1. set_below col (PVal lo) (lov lo) z = Inr z1 \<and>
     set_above col (PVal hi) (lov hi) z1 = Inr z"
proof -
  have row: "\<forall>r\<in>set (rows z). \<exists>b1 b2. cell_lt (r col) lo = Inr b1 \<and>
      cell_lt hi (if b1 then lov lo else r col) = Inr b2 \<and>
      (if b2 then lov hi else if b1 then lov lo else r col) = r col"
  proof
    fix r assume "r \<in> set (rows z)"
    with fx have "clip_cell fill lo hi (r col) = Inr (r col)" by simp
    then show "\<exists>b1 b2. cell_lt (r col) lo = Inr b1 \<and>
      cell_lt hi (if b1 then lov lo else r col) = Inr b2 \<and>
      (if b2 then lov hi else if b1 then lov lo else r col) = r col"
      unfolding clip_cell_def Let_def and_then_eq_Inr lov by auto
  qed
  then have "\<forall>r\<in>set (rows z). \<exists>b. cell_lt (r col) lo = Inr b" by blast
  from set_below_total [OF col this] obtain z1 where
    z1: "set_below col (PVal lo) (lov lo) z = Inr z1" by blast
  from set_below_Inr [OF z1] have c1: "columns z1 = columns z"
    and l1: "length (rows z1) = length (rows z)"
    and r1: "\<forall>i<length (rows z). \<exists>bb. cell_lt ((rows z ! i) col) lo = Inr bb \<and>
        rows z1 ! i = (if bb then (rows z ! i)(col := lov lo) else rows z ! i)"
    by auto
  have "\<forall>r\<in>set (rows z1). \<exists>b. cell_lt hi (r col) = Inr b"
  proof
    fix r1 assume "r1 \<in> set (rows z1)"
    then obtain i where i: "i < length (rows z)" and r: "r1 = rows z1 ! i"
      using l1 by (auto simp: in_set_conv_nth)
    from r1 i obtain bb where bb: "cell_lt ((rows z ! i) col) lo = Inr bb"
      and e: "rows z1 ! i = (if bb then (rows z ! i)(col := lov lo) else rows z ! i)" by blast
    have "rows z ! i \<in> set (rows z)" using i by simp
    with row obtain b1 b2 where "cell_lt ((rows z ! i) col) lo = Inr b1"
      and "cell_lt hi (if b1 then lov lo else (rows z ! i) col) = Inr b2"
      by blast
    with bb e r show "\<exists>b. cell_lt hi (r1 col) = Inr b" by (cases bb) auto
  qed
  from set_above_total [OF _ this] col c1 obtain z2 where
    z2: "set_above col (PVal hi) (lov hi) z1 = Inr z2" by auto
  from set_above_Inr [OF z2] have c2: "columns z2 = columns z1"
    and l2: "length (rows z2) = length (rows z1)"
    and r2: "\<forall>i<length (rows z1). \<exists>bb. cell_lt hi ((rows z1 ! i) col) = Inr bb \<and>
        rows z2 ! i = (if bb then (rows z1 ! i)(col := lov hi) else rows z1 ! i)"
    by auto
  have "rows z2 = rows z"
  proof (rule nth_equalityI)
    show "length (rows z2) = length (rows z)" using l1 l2 by simp
  next
    fix i assume "i < length (rows z2)"
    then have i: "i < length (rows z)" using l1 l2 by simp
    from r1 i obtain b1 where b1: "cell_lt ((rows z ! i) col) lo = Inr b1"
      and e1: "rows z1 ! i = (if b1 then (rows z ! i)(col := lov lo) else rows z ! i)" by blast
    from r2 i l1 obtain b2 where b2: "cell_lt hi ((rows z1 ! i) col) = Inr b2"
      and e2: "rows z2 ! i = (if b2 then (rows z1 ! i)(col := lov hi) else rows z1 ! i)" by auto
    have "rows z ! i \<in> set (rows z)" using i by simp
    with row obtain c1 c2 where c1: "cell_lt ((rows z ! i) col) lo = Inr c1"
      and c2: "cell_lt hi (if c1 then lov lo else (rows z ! i) col) = Inr c2"
      and f: "(if c2 then lov hi else if c1 then lov lo else (rows z ! i) col) = (rows z ! i) col"
      by blast
    have "c1 = b1" using b1 c1 by simp
    moreover have "c2 = b2" using b2 c2 e1 \<open>c1 = b1\<close> by (cases b1) auto
    ultimately have "rows z2 ! i = (rows z ! i)(col := (rows z ! i) col)"
      using e1 e2 f by (cases b1; cases b2) auto
    then show "rows z2 ! i = rows z ! i" by simp
  qed
  with c1 c2 have "z2 = z" by (intro frame_eqI) simp_all
  with z1 z2 show ?thesis by blast
qed

lemma transform_column_fix:
  assumes "list_index st 0 = Inr tag"
    and "dict_get (outlier_bounds self) col = Inr bounds"
    and "py_index bounds 0 = Inr (PVal lo)" and "py_index bounds 1 = Inr (PVal hi)"
    and "dict_get (fill_values self) col = Inr fill"
    and "col \<in> set (columns z)"
    and "\<forall>r\<in>set (rows z). clip_cell fill lo hi (r col) = Inr (r col)"
  shows "transform_column self col st z = Inr z"
proof -
  from clip_twice_fix [OF assms(6,7) refl] obtain z1 where
    "set_below col (PVal lo) (if fill = PVal (Str ''na'') then NaN else lo) z = Inr z1"
    "set_above col (PVal hi) (if fill = PVal (Str ''na'') then NaN else hi) z1 = Inr z"
    by blast
  then show ?thesis
    using assms(1-5)
    by (cases "fill = PVal (Str ''na'')") (simp_all add: transform_column_def scalar_def)
qed

lemma transform_column_lookups:
  assumes "transform_column self col st x = Inr y"
  shows "\<exists>tag bounds lo hi fill. list_index st 0 = Inr tag \<and>
     dict_get (outlier_bounds self) col = Inr bounds \<and>
     py_index bounds 0 = Inr (PVal lo) \<and> py_index bounds 1 = Inr (PVal hi) \<and>
     dict_get (fill_values self) col = Inr fill \<and> col \<in> set (columns x)"
proof -
  from assms obtain tag where "list_index st 0 = Inr tag"
    unfolding transform_column_def by (auto simp: and_then_eq_Inr)
  with transform_column_cells [OF assms] show ?thesis by blast
qed

lemma settled_after:
  assumes "transform_column self col st x = Inr y"
  shows "settled self col y"
  unfolding settled_def
proof (intro allI impI ballI)
  fix bounds lo hi fill r
  assume h: "dict_get (outlier_bounds self) col = Inr bounds \<and>
     py_index bounds 0 = Inr (PVal lo) \<and> py_index bounds 1 = Inr (PVal hi) \<and>
     dict_get (fill_values self) col = Inr fill" and r: "r \<in> set (rows y)"
  from transform_column_cells [OF assms] h have l: "length (rows y) = length (rows x)"
    and c: "\<forall>i<length (rows x). \<exists>w. clip_cell fill lo hi ((rows x ! i) col) = Inr w \<and>
        rows y ! i = (rows x ! i)(col := w)"
    by auto
  from r l obtain i where i: "i < length (rows x)" and ri: "r = rows y ! i"
    by (auto simp: in_set_conv_nth)
  from c i obtain w where "clip_cell fill lo hi ((rows x ! i) col) = Inr w"
    and "rows y ! i = (rows x ! i)(col := w)" by blast
  with ri clip_cell_idem show "clip_cell fill lo hi (r col) = Inr (r col)" by auto
qed

lemma settled_kept:
  assumes "transform_column self col st x = Inr y" and "settled self c x"
  shows "settled self c y"
proof (cases "c = col")
  case True
  with settled_after [OF assms(1)] show ?thesis by simp
next
  case False
  from transform_column_cells [OF assms(1)] have l: "length (rows y) = length (rows x)"
    and c: "\<forall>i<length (rows x). (rows y ! i) c = (rows x ! i) c"
    using False by auto
  show ?thesis
    unfolding settled_def
  proof (intro allI impI ballI)
    fix bounds lo hi fill r
    assume h: "dict_get (outlier_bounds self) c = Inr bounds \<and>
       py_index bounds 0 = Inr (PVal lo) \<and> py_index bounds 1 = Inr (PVal hi) \<and>
       dict_get (fill_values self) c = Inr fill" and r: "r \<in> set (rows y)"
    from r l obtain i where i: "i < length (rows x)" and ri: "r = rows y ! i"
      by (auto simp: in_set_conv_nth)
    have "rows x ! i \<in> set (rows x)" using i by simp
    with assms(2) h have "clip_cell fill lo hi ((rows x ! i) c) = Inr ((rows x ! i) c)"
      unfolding settled_def by blast
    with c i ri show "clip_cell fill lo hi (r c) = Inr (r c)" by simp
  qed
qed

lemma transform_columns_settled_kept:
  "transform_columns self sts x = Inr x' \<Longrightarrow> settled self c x \<Longrightarrow> settled self c x'"
proof (induction sts arbitrary: x)
  case Nil
  then show ?case by simp
next
  case (Cons p sts)
  from Cons.prems(1) obtain y where y: "transform_column self (fst p) (snd p) x = Inr y"
    and r: "transform_columns self sts y = Inr x'"
    by (auto simp: and_then_eq_Inr)
  from Cons.IH [OF r settled_kept [OF y Cons.prems(2)]] show ?case .
qed

lemma transform_columns_settled:
  "transform_columns self sts x = Inr x' \<Longrightarrow> p \<in> set sts \<Longrightarrow>
   settled self (fst p) x' \<and>
   (\<exists>tag bounds lo hi fill. list_index (snd p) 0 = Inr tag \<and>
     dict_get (outlier_bounds self) (fst p) = Inr bounds \<and>
     py_index bounds 0 = Inr (PVal lo) \<and> py_index bounds 1 = Inr (PVal hi) \<and>
     dict_get (fill_values self) (fst p) = Inr fill \<and> fst p \<in> set (columns x'))"
proof (induction sts arbitrary: x)
  case Nil
  then show ?case by simp
next
  case (Cons q sts)
  from Cons.prems(1) obtain y where y: "transform_column self (fst q) (snd q) x = Inr y"
    and r: "transform_columns self sts y = Inr x'"
    by (auto simp: and_then_eq_Inr)
  show ?case
  proof (cases "p = q")
    case True
    have "settled self (fst p) x'"
      using transform_columns_settled_kept [OF r settled_after [OF y]] True by simp
    moreover have "columns x' = columns x"
      using transform_columns_frame [OF r] transform_column_cells [OF y] by auto
    ultimately show ?thesis
      using transform_column_lookups [OF y] True by auto
  next
    case False
    with Cons.prems(2) have "p \<in> set sts" by simp
    from Cons.IH [OF r this] show ?thesis .
  qed
qed

lemma transform_columns_fix:
  "\<forall>p\<in>set sts. transform_column self (fst p) (snd p) z = Inr z \<Longrightarrow>
   transform_columns self sts z = Inr z"
  by (induction sts) simp_all

lemma outlier_transform_idem:
  assumes "OutlierHandler_transform self x = Inr x'"
  shows "OutlierHandler_transform self x' = Inr x'"
proof -
  from assms have t: "transform_columns self (oh_strategies self) x = Inr x'"
    by (simp add: OutlierHandler_transform_def)
  have "\<forall>p\<in>set (oh_strategies self). transform_column self (fst p) (snd p) x' = Inr x'"
  proof
    fix p assume "p \<in> set (oh_strategies self)"
    from transform_columns_settled [OF t this] obtain tag bounds lo hi fill where
      s: "settled self (fst p) x'" and l: "list_index (snd p) 0 = Inr tag"
      "dict_get (outlier_bounds self) (fst p) = Inr bounds"
      "py_index bounds 0 = Inr (PVal lo)" "py_index bounds 1 = Inr (PVal hi)"
      "dict_get (fill_values self) (fst p) = Inr fill" "fst p \<in> set (columns x')"
      by blast
    from s l have "\<forall>r\<in>set (rows x'). clip_cell fill lo hi (r (fst p)) = Inr (r (fst p))"
      unfolding settled_def by blast
    from transform_column_fix [OF l this]
    show "transform_column self (fst p) (snd p) x' = Inr x'" .
  qed
  from transform_columns_fix [OF this] show ?thesis
    by (simp add: OutlierHandler_transform_def)
qed

subsection \<open>The scalar-strategy imputer\<close>

lemma fillna_frame [simp]:
  "columns (fillna c v x) = columns x" "length (rows (fillna c v x)) = length (rows x)"
  by (simp_all add: fillna_def)

lemma fillna_filled: "filled c v (fillna c v x)"
  by (auto simp: filled_def fillna_def)

lemma filled_kept: "filled c v x \<Longrightarrow> filled c v (fillna c' v' x)"
  by (auto simp: filled_def fillna_def split: if_splits)

lemma fillna_fix: "filled c v z \<Longrightarrow> fillna c v z = z"
proof -
  assume f: "filled c v z"
  have "map (\<lambda>r. if r c = NaN then r(c := v) else r) (rows z) = map (\<lambda>r. r) (rows z)"
  proof (rule map_cong [OF refl])
    fix r assume "r \<in> set (rows z)"
    with f have "r c = NaN \<longrightarrow> v = NaN" by (auto simp: filled_def)
    then show "(if r c = NaN then r(c := v) else r) = r" by auto
  qed
  then show ?thesis by (simp add: fillna_def)
qed

lemma fill_columns_filled_kept:
  "fill_columns iv x = Inr x' \<Longrightarrow> filled c v x \<Longrightarrow> filled c v x'"
proof (induction iv arbitrary: x)
  case Nil
  then show ?case by simp
next
  case (Cons p iv)
  from Cons.prems(1) have r: "fill_columns iv (fillna (fst p) (snd p) x) = Inr x'"
    by (simp split: if_splits)
  from Cons.IH [OF r filled_kept [OF Cons.prems(2)]] show ?case .
qed

lemma fill_columns_columns: "fill_columns iv x = Inr x' \<Longrightarrow> columns x' = columns x"
proof (induction iv arbitrary: x)
  case Nil
  then show ?case by simp
next
  case (Cons p iv)
  from Cons.prems have r: "fill_columns iv (fillna (fst p) (snd p) x) = Inr x'"
    by (simp split: if_splits)
  from Cons.IH [OF r] show ?case by simp
qed

lemma fill_columns_filled:
  "fill_columns iv x = Inr x' \<Longrightarrow> p \<in> set iv \<Longrightarrow>
   filled (fst p) (snd p) x' \<and> fst p \<in> set (columns x')"
proof (induction iv arbitrary: x)
  case Nil
  then show ?case by simp
next
  case (Cons q iv)
  from Cons.prems(1) have c: "fst q \<in> set (columns x)"
    and r: "fill_columns iv (fillna (fst q) (snd q) x) = Inr x'"
    by (simp_all split: if_splits)
  show ?case
  proof (cases "p = q")
    case True
    have "filled (fst p) (snd p) x'"
      using fill_columns_filled_kept [OF r fillna_filled] True by simp
    moreover have "columns x' = columns x"
      using fill_columns_columns [OF r] by simp
    ultimately show ?thesis using c True by simp
  next
    case False
    with Cons.prems(2) have "p \<in> set iv" by simp
    from Cons.IH [OF r this] show ?thesis .
  qed
qed

lemma fill_columns_fix:
  "\<forall>p\<in>set iv. filled (fst p) (snd p) z \<and> fst p \<in> set (columns z) \<Longrightarrow>
   fill_columns iv z = Inr z"
  by (induction iv) (simp_all add: fillna_fix)

lemma missing_transform_idem:
  assumes "MissingImputer_transform self x = Inr x'"
  shows "MissingImputer_transform self x' = Inr x'"
proof -
  from assms have t: "fill_columns (impute_values self) x = Inr x'"
    by (simp add: MissingImputer_transform_def)
  have "\<forall>p\<in>set (impute_values self). filled (fst p) (snd p) x' \<and> fst p \<in> set (columns x')"
    using fill_columns_filled [OF t] by blast
  from fill_columns_fix [OF this] show ?thesis
    by (simp add: MissingImputer_transform_def)
qed

subsection \<open>The group-statistic imputers\<close>

lemma fill_row_fix: "(cell_eq k sv \<and> r t = NaN \<longrightarrow> dv = NaN) \<Longrightarrow> fill_row k sv t dv r = r"
  by (auto simp: fill_row_def)

lemma assign_frame [simp]:
  "columns (assign ks sv t dv z) = columns z"
  "length (rows (assign ks sv t dv z)) = min (length ks) (length (rows z))"
  by (simp_all add: assign_def)

lemma assign_fix:
  assumes "length ks = length (rows z)"
    and "\<forall>i<length (rows z). cell_eq (ks ! i) sv \<and> (rows z ! i) t = NaN \<longrightarrow> dv = NaN"
  shows "assign ks sv t dv z = z"
proof -
  have "rows (assign ks sv t dv z) = rows z"
  proof (rule nth_equalityI)
    show "length (rows (assign ks sv t dv z)) = length (rows z)" using assms(1) by simp
  next
    fix i assume "i < length (rows (assign ks sv t dv z))"
    then have i: "i < length (rows z)" using assms(1) by simp
    then have "rows (assign ks sv t dv z) ! i = fill_row (ks ! i) sv t dv (rows z ! i)"
      using assms(1) by (simp add: nth_assign)
    also have "\<dots> = rows z ! i"
      using assms(2) i by (intro fill_row_fix) blast
    finally show "rows (assign ks sv t dv z) ! i = rows z ! i" .
  qed
  then show ?thesis by (intro frame_eqI) simp_all
qed

text \<open>
  A categorical pair whose source is its destination changes nothing: where the cell
  is missing, so is the key.
\<close>

lemma apply_table_self: "apply_table None s s tbl x = Inr x' \<Longrightarrow> x' = x"
proof (induction tbl arbitrary: x)
  case Nil
  then show ?case by simp
next
  case (Cons cat cats)
  from Cons.prems obtain sv dv rest ks where cat: "cat = sv # dv # rest"
    and ks: "getcol x s = Inr ks"
    and rec: "apply_table None s s cats (assign ks sv s dv x) = Inr x'"
    by (auto simp: and_then_eq_Inr split: list.splits)
  from ks have k: "ks = map (\<lambda>r. r s) (rows x)" by (simp add: getcol_Inr)
  have len: "length ks = length (rows x)" using k by simp
  have "\<forall>i<length (rows x). cell_eq (ks ! i) sv \<and> (rows x ! i) s = NaN \<longrightarrow> dv = NaN"
  proof (intro allI impI)
    fix i assume i: "i < length (rows x)"
      and h: "cell_eq (ks ! i) sv \<and> (rows x ! i) s = NaN"
    from h have a: "cell_eq (ks ! i) sv" and b: "(rows x ! i) s = NaN" by simp_all
    from i k b have "ks ! i = NaN" by simp
    with a show "dv = NaN" by simp
  qed
  from assign_fix [OF len this] have "assign ks sv s dv x = x" .
  with rec Cons.IH show ?case by simp
qed

lemma impute_pairs_column_kept:
  "impute_pairs kf d ps x = Inr x' \<Longrightarrow> aligned kf x \<Longrightarrow>
   \<forall>q\<in>set ps. (kf \<noteq> None \<or> fst q \<noteq> snd q) \<longrightarrow> snd q \<noteq> c \<Longrightarrow> i < length (rows x) \<Longrightarrow>
   (rows x' ! i) c = (rows x ! i) c"
proof (induction ps arbitrary: x)
  case Nil
  then show ?case by simp
next
  case (Cons p ps)
  from Cons.prems(1) obtain tbl x1 where
    x1: "apply_table kf (fst p) (snd p) tbl x = Inr x1"
    and rec: "impute_pairs kf d ps x1 = Inr x'"
    by (auto simp: and_then_eq_Inr split: option.splits)
  note a = apply_table_keeps [OF x1 Cons.prems(2)]
  have al1: "aligned kf x1"
    using aligned_same_length [OF Cons.prems(2)] a by simp
  have i1: "i < length (rows x1)" using a Cons.prems(4) by simp
  have h0: "(kf \<noteq> None \<or> fst p \<noteq> snd p) \<longrightarrow> snd p \<noteq> c"
    and h1: "\<forall>q\<in>set ps. (kf \<noteq> None \<or> fst q \<noteq> snd q) \<longrightarrow> snd q \<noteq> c"
    using Cons.prems(3) by simp_all
  have step: "(rows x1 ! i) c = (rows x ! i) c"
  proof (cases "kf \<noteq> None \<or> fst p \<noteq> snd p")
    case False
    then have "kf = None" and "snd p = fst p" by simp_all
    with x1 have "apply_table None (fst p) (fst p) tbl x = Inr x1" by simp
    from apply_table_self [OF this] show ?thesis by simp
  next
    case True
    with h0 have "snd p \<noteq> c" by (rule mp)
    then have "(rows x ! i) c \<noteq> NaN \<or> c \<noteq> snd p" by simp
    moreover from a have "\<forall>i<length (rows x). \<forall>c. (rows x ! i) c \<noteq> NaN \<or> c \<noteq> snd p \<longrightarrow>
        (rows x1 ! i) c = (rows x ! i) c" by simp
    ultimately show ?thesis using Cons.prems(4) by blast
  qed
  from Cons.IH [OF rec al1 h1 i1] have "(rows x' ! i) c = (rows x1 ! i) c" .
  with step show ?case by simp
qed

lemma apply_table_stable:
  "apply_table kf s t tbl x = Inr x' \<Longrightarrow> aligned kf x \<Longrightarrow>
   \<forall>i<length (rows x). key_of kf x i s = k i \<Longrightarrow> kf \<noteq> None \<or> s \<noteq> t \<Longrightarrow>
   stable k t tbl x'"
proof (induction tbl arbitrary: x)
  case Nil
  then show ?case by (simp add: stable_def)
next
  case (Cons cat cats)
  from Cons.prems(1) obtain sv dv rest ks where cat: "cat = sv # dv # rest"
    and ks: "getcol (case kf of None \<Rightarrow> x | Some bx \<Rightarrow> bx) s = Inr ks"
    and rec: "apply_table kf s t cats (assign ks sv t dv x) = Inr x'"
    by (auto simp: and_then_eq_Inr split: list.splits)
  have len: "length ks = length (rows x)"
    using key_length [OF Cons.prems(2) ks] .
  let ?x2 = "assign ks sv t dv x"
  have al2: "aligned kf ?x2"
    using aligned_assign [OF Cons.prems(2) len] .
  have l2: "length (rows ?x2) = length (rows x)"
    using len by simp
  have row2: "\<And>i. i < length (rows x) \<Longrightarrow>
      rows ?x2 ! i = fill_row (k i) sv t dv (rows x ! i)"
    using len key_nth [OF ks Cons.prems(2)] Cons.prems(3) by (simp add: nth_assign)
  have k2: "\<forall>i<length (rows ?x2). key_of kf ?x2 i s = k i"
  proof (intro allI impI)
    fix i assume "i < length (rows ?x2)"
    then have i: "i < length (rows x)" using l2 by simp
    show "key_of kf ?x2 i s = k i"
    proof (cases kf)
      case None
      with Cons.prems(4) have "s \<noteq> t" by simp
      then have "(rows ?x2 ! i) s = (rows x ! i) s"
        using row2 [OF i] by (simp add: fill_row_keep)
      with Cons.prems(3) i None show ?thesis by (simp add: key_of_def)
    next
      case (Some bx)
      with Cons.prems(3) i show ?thesis by (simp add: key_of_def)
    qed
  qed
  note ih = Cons.IH [OF rec al2 k2 Cons.prems(4)]
  note a2 = apply_table_keeps [OF rec al2]
  show ?case
    unfolding stable_def
  proof (intro allI impI ballI)
    fix i c
    assume i': "i < length (rows x')" and n: "(rows x' ! i) t = NaN"
      and c: "c \<in> set (cat # cats)" and m: "cell_eq (k i) (hd c)"
    from i' a2 l2 have i: "i < length (rows x)" by simp
    show "hd (tl c) = NaN"
    proof (cases "c = cat")
      case True
      show ?thesis
      proof (rule ccontr)
        assume "hd (tl c) \<noteq> NaN"
        with True cat have dv: "dv \<noteq> NaN" by simp
        from m True cat have "cell_eq (k i) sv" by simp
        with dv have "(rows ?x2 ! i) t \<noteq> NaN"
          using row2 [OF i] by (simp add: fill_row_def)
        with a2 i l2 have "(rows x' ! i) t \<noteq> NaN" by auto
        with n show False by simp
      qed
    next
      case False
      with c have "c \<in> set cats" by simp
      with ih i' n m show ?thesis unfolding stable_def by blast
    qed
  qed
qed

lemma stable_kept:
  assumes "stable k t tbl x" and "length (rows x') = length (rows x)"
    and "\<forall>i<length (rows x). (rows x ! i) t \<noteq> NaN \<longrightarrow> (rows x' ! i) t \<noteq> NaN"
  shows "stable k t tbl x'"
  unfolding stable_def
proof (intro allI impI ballI)
  fix i c
  assume i: "i < length (rows x')" and n: "(rows x' ! i) t = NaN"
    and c: "c \<in> set tbl" and m: "cell_eq (k i) (hd c)"
  from i assms(2) have i0: "i < length (rows x)" by simp
  with assms(3) n have "(rows x ! i) t = NaN" by blast
  with assms(1) i0 c m show "hd (tl c) = NaN" unfolding stable_def by blast
qed

lemma stable_cong:
  "stable k t tbl z \<Longrightarrow> \<forall>i<length (rows z). k' i = k i \<Longrightarrow> stable k' t tbl z"
  by (simp add: stable_def)

lemma stable_self: "stable (\<lambda>i. key_of None z i t) t tbl z"
  by (simp add: stable_def key_of_def)

lemma apply_table_fix:
  assumes "\<forall>cat\<in>set tbl. 2 \<le> length cat"
    and "tbl \<noteq> [] \<longrightarrow> s \<in> set (columns (case kf of None \<Rightarrow> z | Some bx \<Rightarrow> bx)) \<and> t \<in> set (columns z)"
    and "aligned kf z"
    and "stable (\<lambda>i. key_of kf z i s) t tbl z"
  shows "apply_table kf s t tbl z = Inr z"
  using assms(1,2,4)
proof (induction tbl)
  case Nil
  then show ?case by simp
next
  case (Cons cat cats)
  from Cons.prems(1) obtain sv dv rest where cat: "cat = sv # dv # rest"
    by (cases cat; cases "tl cat") auto
  from Cons.prems(2) have s: "s \<in> set (columns (case kf of None \<Rightarrow> z | Some bx \<Rightarrow> bx))"
    and t: "t \<in> set (columns z)" by simp_all
  from s obtain ks where ks: "getcol (case kf of None \<Rightarrow> z | Some bx \<Rightarrow> bx) s = Inr ks"
    by (simp add: getcol_Inr)
  from t obtain vs where vs: "getcol z t = Inr vs"
    by (simp add: getcol_Inr)
  have len: "length ks = length (rows z)"
    using key_length [OF assms(3) ks] .
  have "\<forall>i<length (rows z). cell_eq (ks ! i) sv \<and> (rows z ! i) t = NaN \<longrightarrow> dv = NaN"
  proof (intro allI impI)
    fix i assume i: "i < length (rows z)" and h: "cell_eq (ks ! i) sv \<and> (rows z ! i) t = NaN"
    have "ks ! i = key_of kf z i s" using key_nth [OF ks assms(3) i] .
    with h have "cell_eq (key_of kf z i s) (hd cat)" using cat by simp
    with Cons.prems(3) i h have "hd (tl cat) = NaN"
      unfolding stable_def by auto
    with cat show "dv = NaN" by simp
  qed
  from assign_fix [OF len this] have fx: "assign ks sv t dv z = z" .
  have "stable (\<lambda>i. key_of kf z i s) t cats z"
    using Cons.prems(3) by (simp add: stable_def)
  with Cons.IH Cons.prems(1,2) have "apply_table kf s t cats z = Inr z" by simp
  with cat ks vs fx show ?case by simp
qed

lemma impute_pairs_shape:
  "impute_pairs kf d ps x = Inr x' \<Longrightarrow> p \<in> set ps \<Longrightarrow>
   \<exists>tbl. d (lookup_key p) = Some tbl \<and> (\<forall>cat\<in>set tbl. 2 \<le> length cat) \<and>
     (tbl \<noteq> [] \<longrightarrow> fst p \<in> set (columns (case kf of None \<Rightarrow> x | Some bx \<Rightarrow> bx)) \<and>
        snd p \<in> set (columns x))"
proof (induction ps arbitrary: x)
  case Nil
  then show ?case by simp
next
  case (Cons q ps)
  from Cons.prems(1) obtain tbl x1 where
    tbl: "d (lookup_key q) = Some tbl"
    and x1: "apply_table kf (fst q) (snd q) tbl x = Inr x1"
    and rec: "impute_pairs kf d ps x1 = Inr x'"
    by (auto simp: and_then_eq_Inr split: option.splits)
  show ?case
  proof (cases "p = q")
    case True
    with tbl apply_table_shape [OF x1] show ?thesis by simp
  next
    case False
    with Cons.prems(2) have "p \<in> set ps" by simp
    from Cons.IH [OF rec this] apply_table_columns [OF x1] show ?thesis
      by (cases kf) auto
  qed
qed

text \<open>
  After a pass, the table of a pair assigns nothing to a cell that is still missing,
  under the keys of the result: the key column is not changed by the pair itself, and
  for a categorical source by no later pair.
\<close>

lemma impute_pairs_stable:
  assumes ip: "impute_pairs kf d (pre @ p # post) x = Inr x'" and al: "aligned kf x"
    and ne: "kf \<noteq> None \<or> fst p \<noteq> snd p"
    and later: "kf = None \<longrightarrow> (\<forall>q\<in>set post. fst q \<noteq> snd q \<longrightarrow> snd q \<noteq> fst p)"
  shows "\<exists>tbl. d (lookup_key p) = Some tbl \<and>
     stable (\<lambda>i. key_of kf x' i (fst p)) (snd p) tbl x'"
proof -
  let ?s = "fst p" and ?t = "snd p"
  from ip obtain x1 where x1: "impute_pairs kf d pre x = Inr x1"
    and r1: "impute_pairs kf d (p # post) x1 = Inr x'"
    unfolding impute_pairs_append by (auto simp: and_then_eq_Inr)
  from r1 obtain tbl x2 where tbl: "d (lookup_key p) = Some tbl"
    and x2: "apply_table kf ?s ?t tbl x1 = Inr x2"
    and r2: "impute_pairs kf d post x2 = Inr x'"
    by (auto simp: and_then_eq_Inr split: option.splits)
  note k1 = impute_pairs_keeps [OF x1 al]
  have al1: "aligned kf x1" using aligned_same_length [OF al] k1 by simp
  note k2 = apply_table_keeps [OF x2 al1]
  have al2: "aligned kf x2" using aligned_same_length [OF al1] k2 by simp
  note k3 = impute_pairs_keeps [OF r2 al2]
  have "stable (\<lambda>i. key_of kf x1 i ?s) ?t tbl x2"
    by (rule apply_table_stable [OF x2 al1 _ ne]) simp
  then have st: "stable (\<lambda>i. key_of kf x1 i ?s) ?t tbl x'"
  proof (rule stable_kept)
    show "length (rows x') = length (rows x2)" using k3 by simp
    show "\<forall>i<length (rows x2). (rows x2 ! i) ?t \<noteq> NaN \<longrightarrow> (rows x' ! i) ?t \<noteq> NaN"
      using k3 by auto
  qed
  have "\<forall>i<length (rows x'). key_of kf x' i ?s = key_of kf x1 i ?s"
  proof (intro allI impI)
    fix i assume "i < length (rows x')"
    with k3 have i2: "i < length (rows x2)" by simp
    with k2 have i1: "i < length (rows x1)" by simp
    show "key_of kf x' i ?s = key_of kf x1 i ?s"
    proof (cases kf)
      case None
      with ne have "?s \<noteq> ?t" by simp
      with k2 i1 have a: "(rows x2 ! i) ?s = (rows x1 ! i) ?s" by blast
      have "\<forall>q\<in>set post. (kf \<noteq> None \<or> fst q \<noteq> snd q) \<longrightarrow> snd q \<noteq> ?s"
        using later None by simp
      from impute_pairs_column_kept [OF r2 al2 this i2] a None show ?thesis
        by (simp add: key_of_def)
    next
      case (Some bx)
      then show ?thesis by (simp add: key_of_def)
    qed
  qed
  from stable_cong [OF st this] tbl show ?thesis by blast
qed

lemma impute_pairs_fix:
  "\<forall>p\<in>set ps. \<exists>tbl. d (lookup_key p) = Some tbl \<and>
      apply_table kf (fst p) (snd p) tbl z = Inr z \<Longrightarrow>
   impute_pairs kf d ps z = Inr z"
  by (induction ps) auto

lemma fills_later_split:
  "\<not> fills_later (pre @ p # post) \<Longrightarrow> fst p \<noteq> snd p \<Longrightarrow>
   \<forall>q\<in>set post. fst q \<noteq> snd q \<longrightarrow> snd q \<noteq> fst p"
proof (induction pre)
  case Nil
  then show ?case by (simp add: list_ex_iff) blast
next
  case (Cons a pre)
  from Cons.prems(1) have "\<not> fills_later (pre @ p # post)" by simp
  from Cons.IH [OF this Cons.prems(2)] show ?case .
qed

lemma impute_pairs_twice:
  assumes ip: "impute_pairs kf d ps x = Inr x'" and al: "aligned kf x"
    and ord: "kf = None \<longrightarrow> \<not> fills_later ps"
  shows "impute_pairs kf d ps x' = Inr x'"
proof (rule impute_pairs_fix, rule ballI)
  fix p assume p: "p \<in> set ps"
  note b = impute_pairs_keeps [OF ip al]
  have al': "aligned kf x'"
    using aligned_same_length [OF al] b by simp
  from impute_pairs_shape [OF ip p] obtain tbl where tbl: "d (lookup_key p) = Some tbl"
    and sh: "\<forall>cat\<in>set tbl. 2 \<le> length cat"
    and cols: "tbl \<noteq> [] \<longrightarrow> fst p \<in> set (columns (case kf of None \<Rightarrow> x | Some bx \<Rightarrow> bx)) \<and>
        snd p \<in> set (columns x)"
    by blast
  have cols': "tbl \<noteq> [] \<longrightarrow> fst p \<in> set (columns (case kf of None \<Rightarrow> x' | Some bx \<Rightarrow> bx)) \<and>
        snd p \<in> set (columns x')"
    using cols b by (cases kf) auto
  have "stable (\<lambda>i. key_of kf x' i (fst p)) (snd p) tbl x'"
  proof (cases "kf = None \<and> fst p = snd p")
    case True
    then have "kf = None" and "fst p = snd p" by simp_all
    then show ?thesis by (simp add: stable_self)
  next
    case False
    then have ne: "kf \<noteq> None \<or> fst p \<noteq> snd p" by simp
    from split_list [OF p] obtain pre post where ps: "ps = pre @ p # post" by blast
    have later: "kf = None \<longrightarrow> (\<forall>q\<in>set post. fst q \<noteq> snd q \<longrightarrow> snd q \<noteq> fst p)"
    proof
      assume n: "kf = None"
      with ne have d: "fst p \<noteq> snd p" by simp
      from ord n ps have "\<not> fills_later (pre @ p # post)" by simp
      from fills_later_split [OF this d]
      show "\<forall>q\<in>set post. fst q \<noteq> snd q \<longrightarrow> snd q \<noteq> fst p" .
    qed
    from impute_pairs_stable [OF ip [unfolded ps] al ne later] tbl show ?thesis by simp
  qed
  from apply_table_fix [OF sh cols' al' this] tbl
  show "\<exists>tbl. d (lookup_key p) = Some tbl \<and> apply_table kf (fst p) (snd p) tbl x' = Inr x'"
    by simp
qed

lemma cat_transform_idem:
  assumes "cat_transform self x = Inr x'" and "\<not> fills_later (pairs_of self)"
  shows "cat_transform self x' = Inr x'"
proof -
  from assms(1) obtain ss ds where ss: "src_cols self = Some ss" and ds: "dest_cols self = Some ds"
    and ip: "impute_pairs None (impute_value_dict self) (zip ss ds) x = Inr x'"
    by (auto simp: cat_transform_def split: option.splits)
  from assms(2) ss ds have "\<not> fills_later (zip ss ds)" by (simp add: pairs_of_def)
  then have "impute_pairs None (impute_value_dict self) (zip ss ds) x' = Inr x'"
    using impute_pairs_twice [OF ip] by (simp add: aligned_def)
  with ss ds show ?thesis by (simp add: cat_transform_def)
qed

lemma zip_sides: "fst ` set (zip ss ds) \<subseteq> set ss" "snd ` set (zip ss ds) \<subseteq> set ds"
  by (auto dest: set_zip_leftD set_zip_rightD)

lemma map_rows_cong:
  "length xs = length ys \<Longrightarrow> \<forall>i<length ys. f (xs ! i) = f (ys ! i) \<Longrightarrow> map f xs = map f ys"
  by (simp add: list_eq_iff_nth_eq)

lemma bin_row_cong: "\<forall>s\<in>set ss. r s = r' s \<Longrightarrow> bin_row ss kb r = bin_row ss kb r'"
proof
  fix c assume h: "\<forall>s\<in>set ss. r s = r' s"
  show "bin_row ss kb r c = bin_row ss kb r' c"
  proof (cases "map_of (zip ss kb) c")
    case None
    then show ?thesis by (simp add: bin_row_def)
  next
    case (Some e)
    then have "c \<in> set ss" by (auto dest: map_of_SomeD set_zip_leftD)
    with h Some show ?thesis by (simp add: bin_row_def)
  qed
qed

lemma binned_frame_cong:
  assumes "columns x' = columns x" and "length (rows x') = length (rows x)"
    and "\<forall>i<length (rows x). \<forall>s\<in>set ss. (rows x' ! i) s = (rows x ! i) s"
  shows "binned_frame ss kb x' = binned_frame ss kb x"
proof -
  have "map (\<lambda>c. map (\<lambda>r. fillna0 (r c)) (rows x')) ss = map (\<lambda>c. map (\<lambda>r. fillna0 (r c)) (rows x)) ss"
  proof (rule map_cong [OF refl])
    fix c assume "c \<in> set ss"
    with assms(3) have "\<forall>i<length (rows x). fillna0 ((rows x' ! i) c) = fillna0 ((rows x ! i) c)"
      by simp
    with assms(2) show "map (\<lambda>r. fillna0 (r c)) (rows x') = map (\<lambda>r. fillna0 (r c)) (rows x)"
      by (intro map_rows_cong)
  qed
  then have s: "src_frame x' ss = src_frame x ss"
    using assms(1) by (simp add: src_frame_def)
  have "\<forall>i<length (rows x). bin_row ss kb (rows x' ! i) = bin_row ss kb (rows x ! i)"
    using assms(3) by (auto intro: bin_row_cong)
  with assms(2) have m: "map (bin_row ss kb) (rows x') = map (bin_row ss kb) (rows x)"
    by (intro map_rows_cong)
  show ?thesis unfolding binned_frame_def s m ..
qed

lemma num_transform_idem:
  assumes "num_transform self x = Inr x'" and "separate self"
  shows "num_transform self x' = Inr x'"
proof -
  from assms(1) obtain ss kb ds bx where ss: "src_cols self = Some ss"
    and kb: "kbins_discretizor self = Some kb" and ds: "dest_cols self = Some ds"
    and bx: "binned_frame ss kb x = Inr bx"
    and ip: "impute_pairs (Some bx) (impute_value_dict self) (zip ss ds) x = Inr x'"
    by (auto simp: num_transform_def and_then_eq_Inr split: option.splits)
  note al = binned_frame_aligned [OF bx]
  note b = impute_pairs_keeps [OF ip al]
  from assms(2) ss ds have dj: "set ss \<inter> set ds = {}"
    by (auto simp: separate_def list_all_iff)
  have "\<forall>i<length (rows x). \<forall>s\<in>set ss. (rows x' ! i) s = (rows x ! i) s"
  proof (intro allI impI ballI)
    fix i s assume i: "i < length (rows x)" and s: "s \<in> set ss"
    with dj zip_sides(2) [of ss ds] have "s \<notin> snd ` set (zip ss ds)" by blast
    with b i show "(rows x' ! i) s = (rows x ! i) s" by blast
  qed
  with b have "binned_frame ss kb x' = binned_frame ss kb x"
    by (intro binned_frame_cong) simp_all
  moreover have "impute_pairs (Some bx) (impute_value_dict self) (zip ss ds) x' = Inr x'"
    using impute_pairs_twice [OF ip al] by simp
  ultimately show ?thesis using ss kb ds bx by (simp add: num_transform_def)
qed

lemma twice_idem: "(\<And>y. f x = Inr y \<Longrightarrow> f y = Inr y) \<Longrightarrow> twice f x = f x"
  by (cases "f x") (simp_all add: twice_def)

lemma ex_chain:
  "NumAndNumImputer_fit (num_imputer_init [(''x'', ''y''), (''y'', ''z'')] 2 Uniform) ex_chain_F =
   Inr ex_chain"
proof -
  have "\<not> isl (NumAndNumImputer_fit
      (num_imputer_init [(''x'', ''y''), (''y'', ''z'')] 2 Uniform) ex_chain_F)"
    by code_simp
  then show ?thesis unfolding ex_chain_def by (rule fitted_eq)
qed

lemma ex_chain_once: "NumAndNumImputer_transform ex_chain ex_chain_D = Inr ex_chain_once"
proof -
  have "\<not> isl (NumAndNumImputer_transform ex_chain ex_chain_D)" by code_simp
  then show ?thesis unfolding ex_chain_once_def by (rule fitted_eq)
qed

lemma ex_chain_twice: "NumAndNumImputer_transform ex_chain ex_chain_once = Inr ex_chain_twice"
proof -
  have "\<not> isl (NumAndNumImputer_transform ex_chain ex_chain_once)" by code_simp
  then show ?thesis unfolding ex_chain_twice_def by (rule fitted_eq)
qed

lemma ex_back:
  "CatAndCatImputer_fit (pair_imputer_init [(''b'', ''c''), (''a'', ''b'')]) ex_link_F = Inr ex_back"
proof -
  have "\<not> isl (CatAndCatImputer_fit (pair_imputer_init [(''b'', ''c''), (''a'', ''b'')]) ex_link_F)"
    by code_simp
  then show ?thesis unfolding ex_back_def by (rule fitted_eq)
qed

lemma ex_back_once: "CatAndCatImputer_transform ex_back ex_link_D = Inr ex_back_once"
proof -
  have "\<not> isl (CatAndCatImputer_transform ex_back ex_link_D)" by code_simp
  then show ?thesis unfolding ex_back_once_def by (rule fitted_eq)
qed

lemma ex_back_twice: "CatAndCatImputer_transform ex_back ex_back_once = Inr ex_back_twice"
proof -
  have "\<not> isl (CatAndCatImputer_transform ex_back ex_back_once)" by code_simp
  then show ?thesis unfolding ex_back_twice_def by (rule fitted_eq)
qed

text \<open>
  C4, as the code has it. Transforming the result of a transform again returns it
  unchanged: for the scalar-strategy imputer and the outlier handler always; for the
  two categorical-source imputers when no pair reads a source column that a later
  pair fills (a pair that fills the source of a later pair does no harm: the later
  pair reads the filled column in the first pass already); for the two numeric-source
  imputers, which bin the source columns once from the frame as passed in, when no
  source column is a destination column as well. This holds for every state of the
  component, so for every fitted one, and for every frame; a first pass that raises an
  error leaves nothing to transform again.
\<close>

theorem transform_twice_is_transform_once:
  "(\<not> fills_later (pairs_of ci) \<longrightarrow>
      twice (CatAndNumImputer_transform ci) D = CatAndNumImputer_transform ci D \<and>
      twice (CatAndCatImputer_transform ci) D = CatAndCatImputer_transform ci D) \<and>
   (separate ni \<longrightarrow>
      twice (NumAndNumImputer_transform ni) D = NumAndNumImputer_transform ni D \<and>
      twice (NumAndCatImputer_transform ni) D = NumAndCatImputer_transform ni D) \<and>
   twice (MissingImputer_transform mi) D = MissingImputer_transform mi D \<and>
   twice (OutlierHandler_transform oh) D = OutlierHandler_transform oh D"
proof (intro conjI impI)
  assume s: "\<not> fills_later (pairs_of ci)"
  show "twice (CatAndNumImputer_transform ci) D = CatAndNumImputer_transform ci D"
    using cat_transform_idem [OF _ s]
    by (intro twice_idem) (simp add: CatAndNumImputer_transform_def)
  show "twice (CatAndCatImputer_transform ci) D = CatAndCatImputer_transform ci D"
    using cat_transform_idem [OF _ s]
    by (intro twice_idem) (simp add: CatAndCatImputer_transform_def)
next
  assume s: "separate ni"
  show "twice (NumAndNumImputer_transform ni) D = NumAndNumImputer_transform ni D"
    using num_transform_idem [OF _ s]
    by (intro twice_idem) (simp add: NumAndNumImputer_transform_def)
  show "twice (NumAndCatImputer_transform ni) D = NumAndCatImputer_transform ni D"
    using num_transform_idem [OF _ s]
    by (intro twice_idem) (simp add: NumAndCatImputer_transform_def)
next
  show "twice (MissingImputer_transform mi) D = MissingImputer_transform mi D"
    by (intro twice_idem missing_transform_idem)
  show "twice (OutlierHandler_transform oh) D = OutlierHandler_transform oh D"
    by (intro twice_idem outlier_transform_idem)
qed

text \<open>
  A categorical chain with the filling pair first, as in the configuration of the
  notebook: the first pass fills \<^verbatim>\<open>b\<close> and then \<^verbatim>\<open>c\<close>, and a second pass changes nothing.
\<close>

theorem transform_twice_is_transform_once_witness:
  "pairs_of ex_link = [(''a'', ''b''), (''b'', ''c'')] \<and>
   \<not> fills_later (pairs_of ex_link) \<and>
   map (\<lambda>r. (r ''a'', r ''b'', r ''c'')) (rows ex_link_D) = [(Str ''q'', NaN, NaN)] \<and>
   map (\<lambda>r. (r ''a'', r ''b'', r ''c'')) (rows ex_link_out) = [(Str ''q'', Str ''v'', Str ''n'')] \<and>
   twice (CatAndCatImputer_transform ex_link) ex_link_D = Inr ex_link_out \<and>
   \<not> fills_later [(''city'', ''gender''), (''city'', ''education_level''),
      (''education_level'', ''major_discipline''), (''education_level'', ''experience''),
      (''experience'', ''last_new_job''), (''education_level'', ''enrolled_university'')] \<and>
   \<not> fills_later (pairs_of ex_cat) \<and>
   twice (CatAndNumImputer_transform ex_cat) ex_D = Inr ex_cat_out \<and>
   separate ex_num \<and>
   twice (NumAndNumImputer_transform ex_num) ex_D = Inr ex_num_out \<and>
   map (\<lambda>r. r ''y'') (rows ex_D) = [NaN, NaN, Num 7] \<and>
   map (\<lambda>r. r ''y'') (rows ex_cat_out) = [Num 15, Num 10, Num 7] \<and>
   map (\<lambda>r. r ''y'') (rows ex_num_out) = [Num 15, Num 15, Num 7]"
proof -
  note T = transform_twice_is_transform_once [of ex_cat ex_D ex_num]
  note L = transform_twice_is_transform_once [of ex_link ex_link_D]
  have p: "pairs_of ex_link = [(''a'', ''b''), (''b'', ''c'')]" by code_simp
  have l: "\<not> fills_later (pairs_of ex_link)" by code_simp
  have d: "map (\<lambda>r. (r ''a'', r ''b'', r ''c'')) (rows ex_link_D) = [(Str ''q'', NaN, NaN)]"
    by (simp add: ex_link_D_def)
  have o: "map (\<lambda>r. (r ''a'', r ''b'', r ''c'')) (rows ex_link_out) =
      [(Str ''q'', Str ''v'', Str ''n'')]"
    by code_simp
  have t: "twice (CatAndCatImputer_transform ex_link) ex_link_D = Inr ex_link_out"
    using L l ex_link_out by simp
  have n: "\<not> fills_later [(''city'', ''gender''), (''city'', ''education_level''),
      (''education_level'', ''major_discipline''), (''education_level'', ''experience''),
      (''experience'', ''last_new_job''), (''education_level'', ''enrolled_university'')]"
    by code_simp
  have a: "\<not> fills_later (pairs_of ex_cat)" by code_simp
  have b: "separate ex_num" by code_simp
  have c: "twice (CatAndNumImputer_transform ex_cat) ex_D = Inr ex_cat_out"
    using T a ex_cat_out by simp
  have e: "twice (NumAndNumImputer_transform ex_num) ex_D = Inr ex_num_out"
    using T b ex_num_out by simp
  have f: "map (\<lambda>r. r ''y'') (rows ex_D) = [NaN, NaN, Num 7]" by (simp add: ex_D_def)
  have g: "map (\<lambda>r. r ''y'') (rows ex_cat_out) = [Num 15, Num 10, Num 7]" by code_simp
  have h: "map (\<lambda>r. r ''y'') (rows ex_num_out) = [Num 15, Num 15, Num 7]" by code_simp
  note facts = p l d o t n a b c e f g h
  show ?thesis by (intro conjI; fact facts)
qed

text \<open>
  The claim as stated fails for a chain of pairs. With the pairs \<^verbatim>\<open>(x, y)\<close> and
  \<^verbatim>\<open>(y, z)\<close> the numeric-source transform bins \<^verbatim>\<open>y\<close> once, from the frame as passed in: a
  missing \<^verbatim>\<open>y\<close> is binned as zero (bin 0, which has no entry for \<^verbatim>\<open>z\<close>), so the first pass
  fills \<^verbatim>\<open>y\<close> with 50 and leaves \<^verbatim>\<open>z\<close> missing; the second pass bins the filled 50 (bin
  1) and fills \<^verbatim>\<open>z\<close> with 500. The categorical-source transform reads the source from
  the current frame, and fails when the reading pair comes first: with the pairs
  \<^verbatim>\<open>(b, c)\<close> and \<^verbatim>\<open>(a, b)\<close> the first pass finds \<^verbatim>\<open>b\<close> missing when it fills \<^verbatim>\<open>c\<close>, then
  fills \<^verbatim>\<open>b\<close>; the second pass fills \<^verbatim>\<open>c\<close>.
\<close>

theorem chained_pairs_counterexample:
  "NumAndNumImputer_fit (num_imputer_init [(''x'', ''y''), (''y'', ''z'')] 2 Uniform) ex_chain_F =
     Inr ex_chain \<and>
   impute_value_dict ex_chain ''x_y'' = Some [[Num 0, Num 10], [Num 1, Num 50]] \<and>
   impute_value_dict ex_chain ''y_z'' = Some [[Num 1, Num 500]] \<and>
   NumAndNumImputer_transform ex_chain ex_chain_D = Inr ex_chain_once \<and>
   NumAndNumImputer_transform ex_chain ex_chain_once = Inr ex_chain_twice \<and>
   map (\<lambda>r. (r ''x'', r ''y'', r ''z'')) (rows ex_chain_D) = [(Num 9, NaN, NaN)] \<and>
   map (\<lambda>r. (r ''x'', r ''y'', r ''z'')) (rows ex_chain_once) = [(Num 9, Num 50, NaN)] \<and>
   map (\<lambda>r. (r ''x'', r ''y'', r ''z'')) (rows ex_chain_twice) = [(Num 9, Num 50, Num 500)] \<and>
   twice (NumAndNumImputer_transform ex_chain) ex_chain_D \<noteq>
     NumAndNumImputer_transform ex_chain ex_chain_D \<and>
   CatAndCatImputer_fit (pair_imputer_init [(''b'', ''c''), (''a'', ''b'')]) ex_link_F = Inr ex_back \<and>
   impute_value_dict ex_back ''b_c'' = Some [[Str ''u'', Str ''m''], [Str ''v'', Str ''n'']] \<and>
   impute_value_dict ex_back ''a_b'' = Some [[Str ''p'', Str ''u''], [Str ''q'', Str ''v'']] \<and>
   CatAndCatImputer_transform ex_back ex_link_D = Inr ex_back_once \<and>
   CatAndCatImputer_transform ex_back ex_back_once = Inr ex_back_twice \<and>
   map (\<lambda>r. (r ''a'', r ''b'', r ''c'')) (rows ex_link_D) = [(Str ''q'', NaN, NaN)] \<and>
   map (\<lambda>r. (r ''a'', r ''b'', r ''c'')) (rows ex_back_once) = [(Str ''q'', Str ''v'', NaN)] \<and>
   map (\<lambda>r. (r ''a'', r ''b'', r ''c'')) (rows ex_back_twice) = [(Str ''q'', Str ''v'', Str ''n'')] \<and>
   twice (CatAndCatImputer_transform ex_back) ex_link_D \<noteq>
     CatAndCatImputer_transform ex_back ex_link_D"
proof -
  have a: "impute_value_dict ex_chain ''x_y'' = Some [[Num 0, Num 10], [Num 1, Num 50]]"
    by code_simp
  have b: "impute_value_dict ex_chain ''y_z'' = Some [[Num 1, Num 500]]" by code_simp
  have c: "map (\<lambda>r. (r ''x'', r ''y'', r ''z'')) (rows ex_chain_D) = [(Num 9, NaN, NaN)]"
    by (simp add: ex_chain_D_def)
  have d: "map (\<lambda>r. (r ''x'', r ''y'', r ''z'')) (rows ex_chain_once) = [(Num 9, Num 50, NaN)]"
    by code_simp
  have e: "map (\<lambda>r. (r ''x'', r ''y'', r ''z'')) (rows ex_chain_twice) = [(Num 9, Num 50, Num 500)]"
    by code_simp
  have "ex_chain_twice \<noteq> ex_chain_once" using d e by auto
  then have f: "twice (NumAndNumImputer_transform ex_chain) ex_chain_D \<noteq>
     NumAndNumImputer_transform ex_chain ex_chain_D"
    by (simp add: twice_def ex_chain_once ex_chain_twice)
  have a2: "impute_value_dict ex_back ''b_c'' = Some [[Str ''u'', Str ''m''], [Str ''v'', Str ''n'']]"
    by code_simp
  have b2: "impute_value_dict ex_back ''a_b'' = Some [[Str ''p'', Str ''u''], [Str ''q'', Str ''v'']]"
    by code_simp
  have c2: "map (\<lambda>r. (r ''a'', r ''b'', r ''c'')) (rows ex_link_D) = [(Str ''q'', NaN, NaN)]"
    by (simp add: ex_link_D_def)
  have d2: "map (\<lambda>r. (r ''a'', r ''b'', r ''c'')) (rows ex_back_once) = [(Str ''q'', Str ''v'', NaN)]"
    by code_simp
  have e2: "map (\<lambda>r. (r ''a'', r ''b'', r ''c'')) (rows ex_back_twice) =
      [(Str ''q'', Str ''v'', Str ''n'')]"
    by code_simp
  have "ex_back_twice \<noteq> ex_back_once" using d2 e2 by auto
  then have f2: "twice (CatAndCatImputer_transform ex_back) ex_link_D \<noteq>
     CatAndCatImputer_transform ex_back ex_link_D"
    by (simp add: twice_def ex_back_once ex_back_twice)
  note facts = ex_chain ex_chain_once ex_chain_twice a b c d e f
    ex_back ex_back_once ex_back_twice a2 b2 c2 d2 e2 f2
  show ?thesis by (intro conjI; fact facts)
qed

end
